theory Spec2Isabelle
  imports Main "HOL-Library.Word" "HOL-Library.Monad_Syntax"
begin

unbundle bit_operations_syntax

section \<open>The 8259 interrupt controller pair of hw/i8259.c\<close>

text \<open>
  The embedding follows \<^verbatim>\<open>src/hw/i8259.c\<close> function by function.
  \<^item> \<^verbatim>\<open>uint8_t\<close> registers are \<open>8 word\<close>; \<^verbatim>\<open>uint32_t val\<close> is \<open>32 word\<close>.
  \<^item> C \<^verbatim>\<open>int\<close> locals (\<^verbatim>\<open>mask\<close>, \<^verbatim>\<open>priority\<close>, \<^verbatim>\<open>irq\<close>, \<^verbatim>\<open>level\<close>,
    \<^verbatim>\<open>ret\<close>) are HOL \<open>int\<close>: every value computed stays far inside 32 bits, a register
    read promotes with \<open>uint\<close>, and a store into a register truncates with \<open>word_of_int\<close>.
  \<^item> The \<^verbatim>\<open>while\<close> loop of \<^verbatim>\<open>get_priority\<close> has no bound in the source, so it is a
    partial function into \<open>option\<close>: \<open>None\<close> is "does not return".
  \<^item> \<^verbatim>\<open>hw_error\<close> aborts the machine: it is the \<open>Inl\<close> result of the port write.
  \<^item> The array \<^verbatim>\<open>pics[2]\<close> is the two fields \<open>pics0\<close> (master) and \<open>pics1\<close> (slave),
    selected by a \<open>pic_index\<close>; a \<^verbatim>\<open>PicState *\<close> argument is the pair plus that index.
\<close>

type_synonym u8 = "8 word"
type_synonym u32 = "32 word"

record PicState =
  last_irr :: u8
  irr :: u8
  imr :: u8
  isr :: u8
  priority_add :: u8
  irq_base :: u8
  read_reg_select :: u8
  poll :: u8
  special_mask :: u8
  init_state :: u8
  auto_eoi :: u8
  rotate_on_auto_eoi :: u8
  special_fully_nested_mode :: u8
  init4 :: u8
  single_mode :: u8
  elcr :: u8
  elcr_mask :: u8

text \<open>\<^verbatim>\<open>/* 0 is master pic, 1 is slave pic */\<close>\<close>

datatype pic_index = Master | Slave

text \<open>
  \<^verbatim>\<open>struct PicState2\<close>. The field \<open>parent_irq\<close> is the level last driven on the wire
  \<^verbatim>\<open>parent_irq\<close> that \<^verbatim>\<open>i8259_init\<close> hands to the master as its \<^verbatim>\<open>int_out\<close>.
\<close>

record PicState2 =
  pics0 :: PicState
  pics1 :: PicState
  parent_irq :: int

definition pics :: "PicState2 \<Rightarrow> pic_index \<Rightarrow> PicState" where
  "pics s i = (case i of Master \<Rightarrow> pics0 s | Slave \<Rightarrow> pics1 s)"

definition pics_update :: "pic_index \<Rightarrow> (PicState \<Rightarrow> PicState) \<Rightarrow> PicState2 \<Rightarrow> PicState2" where
  "pics_update i f s = (case i of Master \<Rightarrow> s\<lparr>pics0 := f (pics0 s)\<rparr>
                                 | Slave \<Rightarrow> s\<lparr>pics1 := f (pics1 s)\<rparr>)"

datatype error = HwError string

subsection \<open>Priority resolution\<close>

text \<open>
  \<^verbatim>\<open>while ((mask & (1 << ((priority + s->priority_add) & 7))) == 0) priority++;\<close>
  (the C local \<^verbatim>\<open>mask\<close> is written \<open>msk\<close>).
\<close>

partial_function (option) get_priority_loop :: "PicState \<Rightarrow> int \<Rightarrow> int \<Rightarrow> int option" where
  "get_priority_loop s msk priority =
     (if msk AND push_bit (nat ((priority + uint (priority_add s)) AND 7)) 1 = 0
      then get_priority_loop s msk (priority + 1)
      else Some priority)"

declare get_priority_loop.simps [code]

definition get_priority :: "PicState \<Rightarrow> int \<Rightarrow> int option" where
  "get_priority s msk =
     (if msk = 0 then Some 8 else get_priority_loop s msk 0)"

text \<open>
  \<^verbatim>\<open>pic_get_irq\<close>: the wanted interrupt, \<open>-1\<close> if none. The test
  \<^verbatim>\<open>s == &s->pics_state->pics[0]\<close> is \<open>i = Master\<close>.
\<close>

definition pic_get_irq :: "pic_index \<Rightarrow> PicState \<Rightarrow> int option" where
  "pic_get_irq i s = do {
     let msk = uint (irr s) AND NOT (uint (imr s));
     priority \<leftarrow> get_priority s msk;
     if priority = 8 then Some (- 1)
     else do {
       let msk = uint (isr s);
       let msk = (if special_mask s \<noteq> 0 then msk AND NOT (uint (imr s)) else msk);
       let msk = (if special_fully_nested_mode s \<noteq> 0 \<and> i = Master
                   then msk AND NOT (push_bit 2 1) else msk);
       cur_priority \<leftarrow> get_priority s msk;
       if priority < cur_priority
       then Some ((priority + uint (priority_add s)) AND 7)
       else Some (- 1)
     }
   }"

subsection \<open>Output wires and line input\<close>

text \<open>
  The register part of \<^verbatim>\<open>pic_set_irq1\<close> (everything before its final
  \<^verbatim>\<open>pic_update_irq(s)\<close>) on one unit.
\<close>

definition pic_set_irq1_regs :: "int \<Rightarrow> int \<Rightarrow> PicState \<Rightarrow> PicState" where
  "pic_set_irq1_regs irq level s =
     (let msk = push_bit (nat irq) 1 in
      if uint (elcr s) AND msk \<noteq> 0 then
        (if level \<noteq> 0
         then s\<lparr>irr := word_of_int (uint (irr s) OR msk),
                last_irr := word_of_int (uint (last_irr s) OR msk)\<rparr>
         else s\<lparr>irr := word_of_int (uint (irr s) AND NOT msk),
                last_irr := word_of_int (uint (last_irr s) AND NOT msk)\<rparr>)
      else
        (if level \<noteq> 0
         then (if uint (last_irr s) AND msk = 0
               then s\<lparr>irr := word_of_int (uint (irr s) OR msk)\<rparr> else s)
              \<lparr>last_irr := word_of_int (uint (last_irr s) OR msk)\<rparr>
         else s\<lparr>last_irr := word_of_int (uint (last_irr s) AND NOT msk)\<rparr>))"

definition pic_rank :: "pic_index \<Rightarrow> nat" where
  "pic_rank i = (case i of Master \<Rightarrow> 0 | Slave \<Rightarrow> 1)"

text \<open>
  Modelled from the spec: \<^verbatim>\<open>qemu_irq_raise\<close> and \<^verbatim>\<open>qemu_irq_lower\<close>, which
  \<^verbatim>\<open>pic_update_irq\<close> calls on the unit's \<^verbatim>\<open>int_out\<close>, are defined outside
  \<^verbatim>\<open>hw/i8259.c\<close>. They are "idempotent level sets on an outward wire":
  \<open>qemu_set_irq i level\<close> sets the \<^verbatim>\<open>int_out\<close> of unit \<open>i\<close> to 1 (raise) or 0 (lower).
  \<^verbatim>\<open>i8259_init\<close> fixes what the two wires are. The master's is \<^verbatim>\<open>parent_irq\<close>, going
  outward. The slave's is \<^verbatim>\<open>irqs[2]\<close>, whose handler is \<^verbatim>\<open>i8259_set_irq(s, 2, level)\<close>,
  that is \<^verbatim>\<open>pic_set_irq1(&s->pics[0], 2, level)\<close>: "the slave's output drives the
  master's line 2 through the same line-input mechanism as device inputs". Hence the
  three functions are mutually recursive; the recursion goes from the slave to the
  master and ends there.
\<close>

function qemu_set_irq :: "pic_index \<Rightarrow> int \<Rightarrow> PicState2 \<Rightarrow> PicState2 option"
  and pic_update_irq :: "pic_index \<Rightarrow> PicState2 \<Rightarrow> PicState2 option"
  and pic_set_irq1 :: "pic_index \<Rightarrow> int \<Rightarrow> int \<Rightarrow> PicState2 \<Rightarrow> PicState2 option"
where
  "qemu_set_irq Master level s = Some (s\<lparr>parent_irq := level\<rparr>)"
| "qemu_set_irq Slave level s = pic_set_irq1 Master 2 level s"
| "pic_update_irq i s = do {
     irq \<leftarrow> pic_get_irq i (pics s i);
     if irq \<ge> 0 then qemu_set_irq i 1 s else qemu_set_irq i 0 s
   }"
| "pic_set_irq1 i irq level s =
     pic_update_irq i (pics_update i (pic_set_irq1_regs irq level) s)"
  by pat_completeness auto
termination
  by (relation "measure (\<lambda>x. case x of
          Inl (i, _) \<Rightarrow> 3 * pic_rank i
        | Inr (Inl (i, _)) \<Rightarrow> 3 * pic_rank i + 1
        | Inr (Inr (i, _)) \<Rightarrow> 3 * pic_rank i + 2)")
     (auto simp: pic_rank_def)

declare qemu_set_irq.simps [simp del] pic_update_irq.simps [simp del]
  pic_set_irq1.simps [simp del]

text \<open>
  \<^verbatim>\<open>pics[irq >> 3]\<close> has two elements; the sixteen handles made by
  \<^verbatim>\<open>qemu_allocate_irqs(i8259_set_irq, s, 16)\<close> carry \<open>irq\<close> in 0..15. Outside that range
  the C indexes past the array and the model gives no result.
\<close>

definition i8259_set_irq :: "int \<Rightarrow> int \<Rightarrow> PicState2 \<Rightarrow> PicState2 option" where
  "i8259_set_irq irq level s =
     (if drop_bit 3 irq = 0 then pic_set_irq1 Master (irq AND 7) level s
      else if drop_bit 3 irq = 1 then pic_set_irq1 Slave (irq AND 7) level s
      else None)"

subsection \<open>Interrupt acknowledge\<close>

definition pic_intack_regs :: "int \<Rightarrow> PicState \<Rightarrow> PicState" where
  "pic_intack_regs irq s =
     (let s1 = (if auto_eoi s \<noteq> 0
                then (if rotate_on_auto_eoi s \<noteq> 0
                      then s\<lparr>priority_add := word_of_int ((irq + 1) AND 7)\<rparr> else s)
                else s\<lparr>isr := word_of_int (uint (isr s) OR push_bit (nat irq) 1)\<rparr>)
      in if uint (elcr s1) AND push_bit (nat irq) 1 = 0
         then s1\<lparr>irr := word_of_int (uint (irr s1) AND NOT (push_bit (nat irq) 1))\<rparr>
         else s1)"

definition pic_intack :: "pic_index \<Rightarrow> int \<Rightarrow> PicState2 \<Rightarrow> PicState2 option" where
  "pic_intack i irq s = pic_update_irq i (pics_update i (pic_intack_regs irq) s)"

text \<open>\<^verbatim>\<open>pic_read_irq\<close> returns \<^verbatim>\<open>intno\<close> and leaves the pair changed.\<close>

definition pic_read_irq :: "PicState2 \<Rightarrow> (int \<times> PicState2) option" where
  "pic_read_irq s = do {
     irq \<leftarrow> pic_get_irq Master (pics s Master);
     if irq \<ge> 0 then do {
       (intno, s1) \<leftarrow>
         (if irq = 2 then do {
            irq2 \<leftarrow> pic_get_irq Slave (pics s Slave);
            (irq2', s') \<leftarrow>
              (if irq2 \<ge> 0 then do { s' \<leftarrow> pic_intack Slave irq2 s; Some (irq2, s') }
               else Some (7, s));
            Some (uint (irq_base (pics s' Slave)) + irq2', s')
          }
          else Some (uint (irq_base (pics s Master)) + irq, s));
       s2 \<leftarrow> pic_intack Master irq s1;
       Some (intno, s2)
     }
     else Some (uint (irq_base (pics s Master)) + 7, s)
   }"

subsection \<open>Reset\<close>

definition pic_init_reset_regs :: "PicState \<Rightarrow> PicState" where
  "pic_init_reset_regs s =
     s\<lparr>last_irr := 0, irr := 0, imr := 0, isr := 0, priority_add := 0, irq_base := 0,
       read_reg_select := 0, poll := 0, special_mask := 0, init_state := 0, auto_eoi := 0,
       rotate_on_auto_eoi := 0, special_fully_nested_mode := 0, init4 := 0,
       single_mode := 0\<rparr>"

definition pic_init_reset :: "pic_index \<Rightarrow> PicState2 \<Rightarrow> PicState2 option" where
  "pic_init_reset i s = pic_update_irq i (pics_update i pic_init_reset_regs s)"

definition pic_reset :: "pic_index \<Rightarrow> PicState2 \<Rightarrow> PicState2 option" where
  "pic_reset i s = do {
     s1 \<leftarrow> pic_init_reset i s;
     Some (pics_update i (\<lambda>u. u\<lparr>elcr := 0\<rparr>) s1)
   }"

subsection \<open>I/O ports\<close>

text \<open>
  \<^verbatim>\<open>pic_ioport_write\<close> on unit \<open>i\<close>, with \<^verbatim>\<open>uint32_t addr\<close>, \<^verbatim>\<open>uint32_t val\<close>.
  \<open>Inl\<close> is the \<^verbatim>\<open>hw_error\<close> abort, \<open>Inr\<close> the state on return. The three
  commands of OCW3 and the OCW2 \<^verbatim>\<open>switch\<close> are written out first.
\<close>

definition ocw3_regs :: "u32 \<Rightarrow> PicState \<Rightarrow> PicState" where
  "ocw3_regs val s =
     (let s1 = (if val AND 0x04 \<noteq> 0 then s\<lparr>poll := 1\<rparr> else s);
          s2 = (if val AND 0x02 \<noteq> 0 then s1\<lparr>read_reg_select := ucast (val AND 1)\<rparr> else s1)
      in if val AND 0x40 \<noteq> 0 then s2\<lparr>special_mask := ucast (drop_bit 5 val AND 1)\<rparr> else s2)"

definition ocw2 :: "pic_index \<Rightarrow> u32 \<Rightarrow> PicState2 \<Rightarrow> PicState2 option" where
  "ocw2 i val s =
     (let cmd = uint (drop_bit 5 val) in
      if cmd = 0 \<or> cmd = 4 then
        Some (pics_update i (\<lambda>u. u\<lparr>rotate_on_auto_eoi := word_of_int (drop_bit 2 cmd)\<rparr>) s)
      else if cmd = 1 \<or> cmd = 5 then do {
        priority \<leftarrow> get_priority (pics s i) (uint (isr (pics s i)));
        if priority \<noteq> 8 then do {
          let irq = (priority + uint (priority_add (pics s i))) AND 7;
          let s1 = pics_update i
                     (\<lambda>u. u\<lparr>isr := word_of_int (uint (isr u) AND NOT (push_bit (nat irq) 1))\<rparr>) s;
          let s2 = (if cmd = 5
                    then pics_update i (\<lambda>u. u\<lparr>priority_add := word_of_int ((irq + 1) AND 7)\<rparr>) s1
                    else s1);
          pic_update_irq i s2
        }
        else Some s
      }
      else if cmd = 3 then do {
        let irq = uint (val AND 7);
        pic_update_irq i (pics_update i
          (\<lambda>u. u\<lparr>isr := word_of_int (uint (isr u) AND NOT (push_bit (nat irq) 1))\<rparr>) s)
      }
      else if cmd = 6 then
        pic_update_irq i (pics_update i (\<lambda>u. u\<lparr>priority_add := ucast ((val + 1) AND 7)\<rparr>) s)
      else if cmd = 7 then do {
        let irq = uint (val AND 7);
        pic_update_irq i (pics_update i
          (\<lambda>u. u\<lparr>isr := word_of_int (uint (isr u) AND NOT (push_bit (nat irq) 1)),
                 priority_add := word_of_int ((irq + 1) AND 7)\<rparr>) s)
      }
      else Some s)"

definition icw_data :: "u32 \<Rightarrow> PicState \<Rightarrow> PicState" where
  "icw_data val s =
     (if init_state s = 1 then
        s\<lparr>irq_base := ucast (val AND 0xf8),
          init_state := (if single_mode s \<noteq> 0 then (if init4 s \<noteq> 0 then 3 else 0) else 2)\<rparr>
      else if init_state s = 2 then
        (if init4 s \<noteq> 0 then s\<lparr>init_state := 3\<rparr> else s\<lparr>init_state := 0\<rparr>)
      else if init_state s = 3 then
        s\<lparr>special_fully_nested_mode := ucast (drop_bit 4 val AND 1),
          auto_eoi := ucast (drop_bit 1 val AND 1),
          init_state := 0\<rparr>
      else s)"

definition pic_ioport_write ::
  "pic_index \<Rightarrow> u32 \<Rightarrow> u32 \<Rightarrow> PicState2 \<Rightarrow> (error + PicState2) option" where
  "pic_ioport_write i addr val s =
     (if addr = 0 then
        (if val AND 0x10 \<noteq> 0 then do {
           s1 \<leftarrow> pic_init_reset i s;
           let s2 = pics_update i
                      (\<lambda>u. u\<lparr>init_state := 1, init4 := ucast (val AND 1),
                             single_mode := ucast (val AND 2)\<rparr>) s1;
           if val AND 0x08 \<noteq> 0
           then Some (Inl (HwError ''level sensitive irq not supported''))
           else Some (Inr s2)
         }
         else if val AND 0x08 \<noteq> 0 then Some (Inr (pics_update i (ocw3_regs val) s))
         else map_option Inr (ocw2 i val s))
      else if init_state (pics s i) = 0 then
        map_option Inr (pic_update_irq i (pics_update i (\<lambda>u. u\<lparr>imr := ucast val\<rparr>) s))
      else Some (Inr (pics_update i (icw_data val) s)))"

text \<open>
  \<^verbatim>\<open>pic_poll_read\<close>; \<^verbatim>\<open>isa_pic\<close> is the pair itself (\<^verbatim>\<open>i8259_init\<close> sets it), so
  \<^verbatim>\<open>s == &isa_pic->pics[1]\<close> is \<open>i = Slave\<close>.
\<close>

definition pic_poll_read :: "pic_index \<Rightarrow> PicState2 \<Rightarrow> (int \<times> PicState2) option" where
  "pic_poll_read i s = do {
     ret \<leftarrow> pic_get_irq i (pics s i);
     if ret \<ge> 0 then do {
       let slave = (i = Slave);
       let s1 = (if slave
                 then pics_update Master
                        (\<lambda>u. u\<lparr>isr := word_of_int (uint (isr u) AND NOT (push_bit 2 1)),
                               irr := word_of_int (uint (irr u) AND NOT (push_bit 2 1))\<rparr>) s
                 else s);
       let s2 = pics_update i
                  (\<lambda>u. u\<lparr>irr := word_of_int (uint (irr u) AND NOT (push_bit (nat ret) 1)),
                         isr := word_of_int (uint (isr u) AND NOT (push_bit (nat ret) 1))\<rparr>) s1;
       s3 \<leftarrow> (if slave \<or> ret \<noteq> 2 then pic_update_irq i s2 else Some s2);
       Some (ret, s3)
     }
     else Some (0x07, s)
   }"

definition pic_ioport_read :: "pic_index \<Rightarrow> u32 \<Rightarrow> PicState2 \<Rightarrow> (int \<times> PicState2) option" where
  "pic_ioport_read i addr s =
     (if poll (pics s i) \<noteq> 0 then do {
        (ret, s1) \<leftarrow> pic_poll_read i s;
        Some (ret, pics_update i (\<lambda>u. u\<lparr>poll := 0\<rparr>) s1)
      }
      else if addr = 0 then
        (if read_reg_select (pics s i) \<noteq> 0 then Some (uint (isr (pics s i)), s)
         else Some (uint (irr (pics s i)), s))
      else Some (uint (imr (pics s i)), s))"

definition pic_intack_read :: "PicState2 \<Rightarrow> (int \<times> PicState2) option" where
  "pic_intack_read s = do {
     (ret, s1) \<leftarrow> pic_poll_read Master s;
     (ret', s2) \<leftarrow> (if ret = 2
                     then do { (r, s') \<leftarrow> pic_poll_read Slave s1; Some (r + 8, s') }
                     else Some (ret, s1));
     Some (ret', pics_update Master (\<lambda>u. u\<lparr>read_reg_select := 1\<rparr>) s2)
   }"

definition elcr_ioport_write :: "pic_index \<Rightarrow> 64 word \<Rightarrow> PicState2 \<Rightarrow> PicState2" where
  "elcr_ioport_write i val s =
     pics_update i (\<lambda>u. u\<lparr>elcr := ucast (val AND ucast (elcr_mask u))\<rparr>) s"

text \<open>
  \<^verbatim>\<open>i8259_init\<close>: \<^verbatim>\<open>g_malloc0\<close> zeroes both units, then the two \<^verbatim>\<open>elcr_mask\<close> are set.
  The level on \<^verbatim>\<open>parent_irq\<close> is whatever the caller's wire holds.
\<close>

definition zero_pic :: PicState where
  "zero_pic = \<lparr>last_irr = 0, irr = 0, imr = 0, isr = 0, priority_add = 0, irq_base = 0,
     read_reg_select = 0, poll = 0, special_mask = 0, init_state = 0, auto_eoi = 0,
     rotate_on_auto_eoi = 0, special_fully_nested_mode = 0, init4 = 0, single_mode = 0,
     elcr = 0, elcr_mask = 0\<rparr>"

definition i8259_init :: "int \<Rightarrow> PicState2" where
  "i8259_init parent =
     \<lparr>pics0 = zero_pic\<lparr>elcr_mask := 0xf8\<rparr>, pics1 = zero_pic\<lparr>elcr_mask := 0xde\<rparr>,
      parent_irq = parent\<rparr>"

subsection \<open>Notions used by the properties\<close>

text \<open>The line that holds priority position \<open>p\<close>: \<^verbatim>\<open>(p + priority_add) & 7\<close>.\<close>

definition prio_line :: "PicState \<Rightarrow> int \<Rightarrow> nat" where
  "prio_line s p = nat ((p + uint (priority_add s)) AND 7)"

text \<open>The two masks \<^verbatim>\<open>pic_get_irq\<close> hands to \<^verbatim>\<open>get_priority\<close> (lines 100 and 107-111).\<close>

definition request_mask :: "PicState \<Rightarrow> int" where
  "request_mask s = uint (irr s) AND NOT (uint (imr s))"

definition service_mask :: "pic_index \<Rightarrow> PicState \<Rightarrow> int" where
  "service_mask i s =
     (let m = uint (isr s);
          m1 = (if special_mask s \<noteq> 0 then m AND NOT (uint (imr s)) else m)
      in if special_fully_nested_mode s \<noteq> 0 \<and> i = Master
         then m1 AND NOT (push_bit 2 1) else m1)"

text \<open>
  The level \<^verbatim>\<open>pic_update_irq\<close> drives on a unit's output: 1 (raise) when
  \<^verbatim>\<open>pic_get_irq\<close> returns a line, 0 (lower) otherwise.
\<close>

definition out_level :: "pic_index \<Rightarrow> PicState \<Rightarrow> int" where
  "out_level i u = (case pic_get_irq i u of Some irq \<Rightarrow> if 0 \<le> irq then 1 else 0 | None \<Rightarrow> 0)"

text \<open>
  The bits of a unit's isr that are set in \<open>s'\<close> and were not in \<open>s\<close>, and how many
  there are over the two units.
\<close>

definition new_isr :: "pic_index \<Rightarrow> PicState2 \<Rightarrow> PicState2 \<Rightarrow> u8" where
  "new_isr i s s' = isr (pics s' i) AND NOT (isr (pics s i))"

definition popcount8 :: "u8 \<Rightarrow> nat" where
  "popcount8 w = length (filter (bit w) [0..<8])"

definition new_isr_count :: "PicState2 \<Rightarrow> PicState2 \<Rightarrow> nat" where
  "new_isr_count s s' = popcount8 (new_isr Master s s') + popcount8 (new_isr Slave s s')"

text \<open>
  A pair programmed with bases 0x20 and 0x28 on which line 10 has just been raised
  (slave line 2, forwarded to master line 2), and the same pair after the acknowledge.
\<close>

definition ex_cascade :: PicState2 where
  "ex_cascade =
     \<lparr>pics0 = zero_pic\<lparr>last_irr := 4, irr := 4, irq_base := 0x20, elcr_mask := 0xf8\<rparr>,
      pics1 = zero_pic\<lparr>last_irr := 4, irr := 4, irq_base := 0x28, elcr_mask := 0xde\<rparr>,
      parent_irq = 1\<rparr>"

definition ex_cascade_acked :: PicState2 where
  "ex_cascade_acked =
     \<lparr>pics0 = zero_pic\<lparr>isr := 4, irq_base := 0x20, elcr_mask := 0xf8\<rparr>,
      pics1 = zero_pic\<lparr>last_irr := 4, isr := 4, irq_base := 0x28, elcr_mask := 0xde\<rparr>,
      parent_irq = 0\<rparr>"

text \<open>The same programming with line 3 of the master raised instead.\<close>

definition ex_plain :: PicState2 where
  "ex_plain =
     \<lparr>pics0 = zero_pic\<lparr>last_irr := 8, irr := 8, irq_base := 0x20, elcr_mask := 0xf8\<rparr>,
      pics1 = zero_pic\<lparr>irq_base := 0x28, elcr_mask := 0xde\<rparr>,
      parent_irq = 1\<rparr>"

text \<open>
  The master with every line masked and the poll command armed: after
  \<^verbatim>\<open>write(0x21, 0xFF)\<close> and \<^verbatim>\<open>write(0x20, 0x0C)\<close> on a fresh pair; and the pair a read
  leaves behind.
\<close>

definition ex_poll_masked :: PicState2 where
  "ex_poll_masked =
     \<lparr>pics0 = zero_pic\<lparr>imr := 0xff, poll := 1, elcr_mask := 0xf8\<rparr>,
      pics1 = zero_pic\<lparr>elcr_mask := 0xde\<rparr>,
      parent_irq = 0\<rparr>"

definition ex_poll_masked_read :: PicState2 where
  "ex_poll_masked_read =
     \<lparr>pics0 = zero_pic\<lparr>imr := 0xff, elcr_mask := 0xf8\<rparr>,
      pics1 = zero_pic\<lparr>elcr_mask := 0xde\<rparr>,
      parent_irq = 0\<rparr>"

text \<open>
  The polled acknowledge in the words of the design: "clear its IRR and ISR bits (and on
  the slave, also clear master's IRR/ISR bit 2)", for line \<open>r\<close> of unit \<open>i\<close>.
\<close>

definition polled_ack_cleared :: "pic_index \<Rightarrow> int \<Rightarrow> PicState2 \<Rightarrow> PicState2" where
  "polled_ack_cleared i r s =
     pics_update i
       (\<lambda>u. u\<lparr>irr := irr u AND NOT (2 ^ nat r), isr := isr u AND NOT (2 ^ nat r)\<rparr>)
       (if i = Slave
        then pics_update Master (\<lambda>u. u\<lparr>isr := isr u AND NOT 4, irr := irr u AND NOT 4\<rparr>) s
        else s)"

text \<open>
  "The output of unit \<open>i\<close> has been re-evaluated": the wire it drives carries the level of
  its pending computation. For the master that wire is \<open>parent_irq\<close>; for the slave it is
  line 2 of the master, whose last level the master keeps in bit 2 of \<open>last_irr\<close>, and
  the master's own output follows in turn.
\<close>

definition wire_in_sync :: "pic_index \<Rightarrow> PicState2 \<Rightarrow> bool" where
  "wire_in_sync i s =
     (case i of
        Master \<Rightarrow> parent_irq s = out_level Master (pics0 s)
      | Slave \<Rightarrow> bit (last_irr (pics0 s)) 2 = (out_level Slave (pics1 s) \<noteq> 0) \<and>
                 parent_irq s = out_level Master (pics0 s))"

text \<open>
  The cascade example with the poll command armed on the master
  (\<^verbatim>\<open>write(0x20, 0x0C)\<close>), and the pair a read of the master's offset 0 leaves behind.
\<close>

definition ex_poll_cascade :: PicState2 where
  "ex_poll_cascade =
     \<lparr>pics0 = zero_pic\<lparr>last_irr := 4, irr := 4, irq_base := 0x20, poll := 1,
                        elcr_mask := 0xf8\<rparr>,
      pics1 = zero_pic\<lparr>last_irr := 4, irr := 4, irq_base := 0x28, elcr_mask := 0xde\<rparr>,
      parent_irq = 1\<rparr>"

definition ex_poll_cascade_read :: PicState2 where
  "ex_poll_cascade_read =
     \<lparr>pics0 = zero_pic\<lparr>last_irr := 4, irq_base := 0x20, elcr_mask := 0xf8\<rparr>,
      pics1 = zero_pic\<lparr>last_irr := 4, irr := 4, irq_base := 0x28, elcr_mask := 0xde\<rparr>,
      parent_irq = 1\<rparr>"

text \<open>The line 3 example with the poll command armed on the master.\<close>

definition ex_poll_plain :: PicState2 where
  "ex_poll_plain =
     \<lparr>pics0 = zero_pic\<lparr>last_irr := 8, irr := 8, irq_base := 0x20, poll := 1,
                        elcr_mask := 0xf8\<rparr>,
      pics1 = zero_pic\<lparr>irq_base := 0x28, elcr_mask := 0xde\<rparr>,
      parent_irq = 1\<rparr>"

subsection \<open>Reachable states\<close>

text \<open>
  The states the pair can be in: built by \<^verbatim>\<open>i8259_init\<close> or left by a machine reset
  (\<^verbatim>\<open>pic_reset\<close> on both units, whatever was there before), and then driven by the entry
  points: port writes that return, port reads, ELCR writes, line inputs, the two
  acknowledges, and a reset of either unit.
\<close>

inductive reachable :: "PicState2 \<Rightarrow> bool" where
  construct: "reachable (i8259_init parent)"
| machine_reset:
    "pic_reset Master s0 = Some s1 \<Longrightarrow> pic_reset Slave s1 = Some s2 \<Longrightarrow> reachable s2"
| port_write: "reachable s \<Longrightarrow> pic_ioport_write i addr val s = Some (Inr s') \<Longrightarrow> reachable s'"
| port_read: "reachable s \<Longrightarrow> pic_ioport_read i addr s = Some (ret, s') \<Longrightarrow> reachable s'"
| elcr_write: "reachable s \<Longrightarrow> reachable (elcr_ioport_write i val64 s)"
| line_input: "reachable s \<Longrightarrow> i8259_set_irq irq level s = Some s' \<Longrightarrow> reachable s'"
| acknowledge: "reachable s \<Longrightarrow> pic_read_irq s = Some (intno, s') \<Longrightarrow> reachable s'"
| intack_read: "reachable s \<Longrightarrow> pic_intack_read s = Some (ret, s') \<Longrightarrow> reachable s'"
| reset: "reachable s \<Longrightarrow> pic_reset i s = Some s' \<Longrightarrow> reachable s'"

text \<open>
  The same entry points as data, to run a written-out sequence of calls from a state. A
  port write that ends in \<^verbatim>\<open>hw_error\<close> ends the run.
\<close>

datatype pic_op =
    Port_write pic_index u32 u32
  | Port_read pic_index u32
  | Line_input int int
  | Acknowledge

fun pic_step :: "pic_op \<Rightarrow> PicState2 \<Rightarrow> PicState2 option" where
  "pic_step (Port_write i addr val) s =
     (case pic_ioport_write i addr val s of Some (Inr s') \<Rightarrow> Some s' | _ \<Rightarrow> None)"
| "pic_step (Port_read i addr) s = map_option snd (pic_ioport_read i addr s)"
| "pic_step (Line_input irq level) s = i8259_set_irq irq level s"
| "pic_step Acknowledge s = map_option snd (pic_read_irq s)"

fun pic_run :: "pic_op list \<Rightarrow> PicState2 \<Rightarrow> PicState2 option" where
  "pic_run [] s = Some s"
| "pic_run (x # xs) s = (case pic_step x s of None \<Rightarrow> None | Some s' \<Rightarrow> pic_run xs s')"

text \<open>
  Initialisation of both units without ICW4: ICW1 = 0x10, the base as ICW2, the cascade
  byte as ICW3.
\<close>

definition init_ops :: "pic_op list" where
  "init_ops =
     [Port_write Master 0 0x10, Port_write Master 1 0x20, Port_write Master 1 0x04,
      Port_write Slave 0 0x10, Port_write Slave 1 0x28, Port_write Slave 1 0x02]"

definition irq_base_aligned :: "PicState2 \<Rightarrow> bool" where
  "irq_base_aligned s \<longleftrightarrow> irq_base (pics0 s) AND 7 = 0 \<and> irq_base (pics1 s) AND 7 = 0"

text \<open>A fresh pair whose master has taken ICW1 = 0x11, and then ICW2 = 0xFF.\<close>

definition ex_icw1 :: PicState2 where
  "ex_icw1 =
     \<lparr>pics0 = zero_pic\<lparr>init_state := 1, init4 := 1, elcr_mask := 0xf8\<rparr>,
      pics1 = zero_pic\<lparr>elcr_mask := 0xde\<rparr>,
      parent_irq = 0\<rparr>"

definition ex_icw2 :: PicState2 where
  "ex_icw2 =
     \<lparr>pics0 = zero_pic\<lparr>irq_base := 0xf8, init_state := 2, init4 := 1, elcr_mask := 0xf8\<rparr>,
      pics1 = zero_pic\<lparr>elcr_mask := 0xde\<rparr>,
      parent_irq = 0\<rparr>"

section \<open>Properties\<close>

subsection \<open>The priority loop returns, with the least position\<close>

lemma and7: "(x::int) AND 7 = x mod 8"
proof -
  have "x AND 7 = x AND mask 3" by (simp add: mask_eq_exp_minus_1)
  also have "\<dots> = take_bit 3 x" by (simp add: take_bit_eq_mask)
  also have "\<dots> = x mod 8" by (simp add: take_bit_eq_mod)
  finally show ?thesis .
qed

lemma loop_step:
  "get_priority_loop s msk p =
     (if bit msk (prio_line s p) then Some p else get_priority_loop s msk (p + 1))"
  by (subst get_priority_loop.simps) (simp add: prio_line_def bit_iff_and_push_bit_not_eq_0)

lemma loop_least:
  "bit msk (prio_line s k) \<Longrightarrow> p \<le> k \<Longrightarrow>
   \<exists>r. p \<le> r \<and> r \<le> k \<and> get_priority_loop s msk p = Some r \<and> bit msk (prio_line s r)
       \<and> (\<forall>j. p \<le> j \<and> j < r \<longrightarrow> \<not> bit msk (prio_line s j))"
proof (induction "nat (k - p)" arbitrary: p)
  case 0
  then have "p = k" by simp
  with 0 show ?case by (subst loop_step) auto
next
  case (Suc n)
  show ?case
  proof (cases "bit msk (prio_line s p)")
    case True
    with Suc.prems show ?thesis by (subst loop_step) auto
  next
    case False
    from Suc have n: "n = nat (k - (p + 1))" and le: "p + 1 \<le> k" by auto
    from Suc.hyps(1) [OF n Suc.prems(1) le]
    obtain r where r: "p + 1 \<le> r" "r \<le> k" "get_priority_loop s msk (p + 1) = Some r"
      "bit msk (prio_line s r)" "\<forall>j. p + 1 \<le> j \<and> j < r \<longrightarrow> \<not> bit msk (prio_line s j)"
      by blast
    have "\<forall>j. p \<le> j \<and> j < r \<longrightarrow> \<not> bit msk (prio_line s j)"
    proof (intro allI impI)
      fix j assume "p \<le> j \<and> j < r"
      then consider "j = p" | "p + 1 \<le> j \<and> j < r" by linarith
      then show "\<not> bit msk (prio_line s j)" using False r(5) by cases auto
    qed
    with r False show ?thesis by (subst loop_step) force
  qed
qed

lemma prio_line_lt: "prio_line s p < 8"
  by (simp add: prio_line_def and7 nat_less_iff)

lemma prio_line_onto: "b < 8 \<Longrightarrow> \<exists>k. 0 \<le> k \<and> k < 8 \<and> prio_line s k = b"
proof -
  assume b: "b < 8"
  let ?k = "(int b - uint (priority_add s)) mod 8"
  have "(?k + uint (priority_add s)) mod 8 = int b mod 8"
    by (simp add: mod_simps)
  with b have "prio_line s ?k = b" by (simp add: prio_line_def and7)
  moreover have "0 \<le> ?k" "?k < 8" by simp_all
  ultimately show ?thesis by blast
qed

lemma byte_bit: 
  assumes "0 < msk" "msk < 256" shows "\<exists>b<8. bit (msk::int) b"
proof (rule ccontr)
  assume a: "\<not> (\<exists>b<8. bit msk b)"
  from assms have tb: "take_bit 8 msk = msk" by (simp add: take_bit_int_eq_self)
  have "take_bit 8 msk = 0"
    by (rule bit_eqI) (use a in \<open>auto simp: bit_take_bit_iff\<close>)
  with tb assms show False by simp
qed

lemma get_priority_zero: "get_priority s 0 = Some 8"
  by (simp add: get_priority_def)

lemma get_priority_byte:
  assumes "0 < msk" "msk < 256"
  shows "\<exists>p. get_priority s msk = Some p \<and> 0 \<le> p \<and> p < 8 \<and> bit msk (prio_line s p)
            \<and> (\<forall>q. 0 \<le> q \<and> q < p \<longrightarrow> \<not> bit msk (prio_line s q))"
proof -
  from byte_bit [OF assms] obtain b where "b < 8" "bit msk b" by blast
  with prio_line_onto [of b s] obtain k where k: "0 \<le> k" "k < 8" "bit msk (prio_line s k)"
    by auto
  from loop_least [OF k(3) k(1)] k(2) assms show ?thesis
    by (auto simp: get_priority_def)
qed

lemma uint_and_range: "0 \<le> uint (a :: u8) AND y \<and> uint a AND y < 256"
proof -
  have "uint a AND y \<le> uint a" by (rule AND_upper1) simp
  moreover have "uint a < 256" using uint_bounded [of a] by simp
  moreover have "0 \<le> uint a AND y" by (simp add: AND_lower)
  ultimately show ?thesis by linarith
qed

lemma and_and_range: "0 \<le> (m::int) \<and> m < 256 \<Longrightarrow> 0 \<le> m AND y \<and> m AND y < 256"
proof -
  assume m: "0 \<le> m \<and> m < 256"
  then have "m AND y \<le> m" by (intro AND_upper1) simp
  moreover have "0 \<le> m AND y" using m by (simp add: AND_lower)
  ultimately show ?thesis using m by linarith
qed

lemma request_mask_range: "0 \<le> request_mask s \<and> request_mask s < 256"
  unfolding request_mask_def by (rule uint_and_range)

lemma service_mask_range: "0 \<le> service_mask i s \<and> service_mask i s < 256"
proof -
  have u: "0 \<le> uint (isr s) \<and> uint (isr s) < 256"
    using uint_bounded [of "isr s"] by simp
  let ?m1 = "if special_mask s \<noteq> 0 then uint (isr s) AND NOT (uint (imr s)) else uint (isr s)"
  have m1: "0 \<le> ?m1 \<and> ?m1 < 256"
    using u and_and_range [OF u, of "NOT (uint (imr s))"] by simp
  show ?thesis
    using m1 and_and_range [OF m1, of "NOT (push_bit 2 1)"]
    by (simp add: service_mask_def Let_def)
qed

lemma get_priority_range:
  assumes "0 \<le> msk" "msk < 256"
  shows "\<exists>p. get_priority s msk = Some p \<and> 0 \<le> p \<and> p \<le> 8
      \<and> (p = 8 \<longleftrightarrow> msk = 0)
      \<and> (p < 8 \<longrightarrow> bit msk (prio_line s p))
      \<and> (\<forall>q. 0 \<le> q \<and> q < p \<and> q < 8 \<longrightarrow> \<not> bit msk (prio_line s q))"
proof (cases "msk = 0")
  case True
  then show ?thesis by (simp add: get_priority_zero)
next
  case False
  with assms have "0 < msk" by simp
  from get_priority_byte [OF this assms(2), of s] show ?thesis using False by force
qed

lemma pic_get_irq_unfold:
  "pic_get_irq i s = do {
     priority \<leftarrow> get_priority s (request_mask s);
     if priority = 8 then Some (- 1)
     else do {
       cur_priority \<leftarrow> get_priority s (service_mask i s);
       if priority < cur_priority
       then Some ((priority + uint (priority_add s)) AND 7)
       else Some (- 1) } }"
  unfolding pic_get_irq_def request_mask_def service_mask_def Let_def by (rule refl)

lemma pic_get_irq_cases:
  "\<exists>p_req p_cur. get_priority s (request_mask s) = Some p_req
     \<and> get_priority s (service_mask i s) = Some p_cur
     \<and> pic_get_irq i s = Some (if p_req = 8 then - 1
                               else if p_req < p_cur then (p_req + uint (priority_add s)) AND 7
                               else - 1)"
proof -
  from get_priority_range [of "request_mask s" s] request_mask_range [of s]
  obtain p where p: "get_priority s (request_mask s) = Some p" by blast
  from get_priority_range [of "service_mask i s" s] service_mask_range [of i s]
  obtain c where c: "get_priority s (service_mask i s) = Some c" by blast
  show ?thesis using p c by (simp add: pic_get_irq_unfold)
qed

text \<open>
  C1. \<^verbatim>\<open>get_priority\<close> returns 8 on the empty mask and, on a non-empty 8-bit mask,
  the lowest priority position 0..7 whose line \<^verbatim>\<open>(p + priority_add) & 7\<close> is set.
  \<^verbatim>\<open>pic_get_irq\<close> returns none (\<open>-1\<close>) when the priority of \<^verbatim>\<open>irr & ~imr\<close> is 8, and
  otherwise the line \<^verbatim>\<open>(p_req + priority_add) & 7\<close> exactly when \<open>p_req\<close> is strictly
  below the priority of the in-service mask; both calls of the loop return.
\<close>

theorem pic_get_irq_priority:
  "get_priority s 0 = Some 8 \<and>
   (0 < msk \<and> msk < 256 \<longrightarrow>
      (\<exists>p. get_priority s msk = Some p \<and> 0 \<le> p \<and> p < 8 \<and> bit msk (prio_line s p)
           \<and> (\<forall>q. 0 \<le> q \<and> q < p \<longrightarrow> \<not> bit msk (prio_line s q)))) \<and>
   (\<exists>p_req p_cur.
      get_priority s (request_mask s) = Some p_req \<and>
      get_priority s (service_mask i s) = Some p_cur \<and>
      pic_get_irq i s =
        Some (if p_req = 8 then - 1
              else if p_req < p_cur then (p_req + uint (priority_add s)) AND 7
              else - 1))"
  using get_priority_zero [of s] get_priority_byte [of msk s] pic_get_irq_cases [of s i]
  by blast

theorem pic_get_irq_priority_witness:
  "0 < (72::int) \<and> (72::int) < 256 \<and>
   (\<exists>p. get_priority (zero_pic\<lparr>priority_add := 5\<rparr>) 72 = Some p \<and> 0 \<le> p \<and> p < 8
        \<and> bit (72::int) (prio_line (zero_pic\<lparr>priority_add := 5\<rparr>) p)
        \<and> (\<forall>q. 0 \<le> q \<and> q < p \<longrightarrow> \<not> bit (72::int) (prio_line (zero_pic\<lparr>priority_add := 5\<rparr>) q)))"
  using pic_get_irq_priority [of "zero_pic\<lparr>priority_add := 5\<rparr>" 72 Master]
  by simp

lemma pic_get_irq_total: "\<exists>r. pic_get_irq i s = Some r"
  using pic_get_irq_cases [of s i] by blast

lemma pic_update_irq_Master:
  "pic_update_irq Master s = Some (s\<lparr>parent_irq := out_level Master (pics0 s)\<rparr>)"
proof -
  obtain r where "pic_get_irq Master (pics0 s) = Some r" using pic_get_irq_total by blast
  then show ?thesis
    by (simp add: pic_update_irq.simps qemu_set_irq.simps out_level_def pics_def)
qed

lemma pic_set_irq1_Master:
  "pic_set_irq1 Master irq level s =
     Some (s\<lparr>pics0 := pic_set_irq1_regs irq level (pics0 s),
             parent_irq := out_level Master (pic_set_irq1_regs irq level (pics0 s))\<rparr>)"
  by (simp add: pic_set_irq1.simps pic_update_irq_Master pics_update_def)

lemma pic_update_irq_Slave:
  "pic_update_irq Slave s =
     Some (s\<lparr>pics0 := pic_set_irq1_regs 2 (out_level Slave (pics1 s)) (pics0 s),
             parent_irq := out_level Master
                (pic_set_irq1_regs 2 (out_level Slave (pics1 s)) (pics0 s))\<rparr>)"
proof -
  obtain r where "pic_get_irq Slave (pics1 s) = Some r" using pic_get_irq_total by blast
  then show ?thesis
    by (simp add: pic_update_irq.simps qemu_set_irq.simps out_level_def pics_def
        pic_set_irq1_Master)
qed

lemma pic_set_irq1_Slave:
  "pic_set_irq1 Slave irq level s =
     Some (s\<lparr>pics1 := pic_set_irq1_regs irq level (pics1 s),
             pics0 := pic_set_irq1_regs 2
                 (out_level Slave (pic_set_irq1_regs irq level (pics1 s))) (pics0 s),
             parent_irq := out_level Master (pic_set_irq1_regs 2
                 (out_level Slave (pic_set_irq1_regs irq level (pics1 s))) (pics0 s))\<rparr>)"
  by (simp add: pic_set_irq1.simps pic_update_irq_Slave pics_update_def)

lemma set_bit_word: "word_of_int (uint (x::u8) OR 2 ^ n) = x OR 2 ^ n"
  by (simp add: of_int_or_eq)

lemma clear_bit_word: "word_of_int (uint (x::u8) AND NOT (2 ^ n)) = x AND NOT (2 ^ n)"
  by (simp add: of_int_and_eq of_int_not_eq)

lemma bit_u8_lt: "bit (x::u8) n \<Longrightarrow> n < 8"
  using bit_imp_le_length [of x n] by simp

lemma test_bit_word: "(uint (x::u8) AND 2 ^ n = 0) = (\<not> bit x n)"
  using bit_iff_and_push_bit_not_eq_0 [of "uint x" n] bit_u8_lt [of x n]
  by (auto simp add: bit_uint_iff)

lemma regs_word:
  "pic_set_irq1_regs irq level s =
     (if bit (elcr s) (nat irq) then
        (if level \<noteq> 0
         then s\<lparr>irr := irr s OR 2 ^ nat irq, last_irr := last_irr s OR 2 ^ nat irq\<rparr>
         else s\<lparr>irr := irr s AND NOT (2 ^ nat irq),
                last_irr := last_irr s AND NOT (2 ^ nat irq)\<rparr>)
      else
        (if level \<noteq> 0
         then s\<lparr>irr := (if bit (last_irr s) (nat irq) then irr s else irr s OR 2 ^ nat irq),
                last_irr := last_irr s OR 2 ^ nat irq\<rparr>
         else s\<lparr>last_irr := last_irr s AND NOT (2 ^ nat irq)\<rparr>))"
  by (simp add: pic_set_irq1_regs_def Let_def set_bit_word clear_bit_word test_bit_word)

lemma or_idem: "((x::u8) OR m) OR m = x OR m"
  by (simp add: ac_simps)
lemma andnot_idem: "((x::u8) AND NOT m) AND NOT m = x AND NOT m"
  by (simp add: ac_simps)
lemma bit_or_exp: "bit ((x::u8) OR 2 ^ n) n \<longleftrightarrow> n < 8"
  using bit_u8_lt [of x n] by (auto simp: bit_simps)
lemma bit_andnot_exp: "\<not> bit ((x::u8) AND NOT (2 ^ n)) n"
  by (auto simp: bit_simps)
lemma or_exp_hi: "\<not> n < 8 \<Longrightarrow> (x::u8) OR 2 ^ n = x"
  by (rule bit_eqI) (auto simp: bit_simps)
lemma bit_hi: "\<not> n < 8 \<Longrightarrow> \<not> bit (x::u8) n"
  using bit_u8_lt [of x n] by blast

lemma regs_idem:
  "pic_set_irq1_regs irq level (pic_set_irq1_regs irq level s) = pic_set_irq1_regs irq level s"
proof (cases "nat irq < 8")
  case True
  then show ?thesis
    by (simp add: regs_word or_idem andnot_idem bit_or_exp bit_andnot_exp)
next
  case False
  then show ?thesis
    by (simp add: regs_word or_idem andnot_idem bit_or_exp bit_andnot_exp or_exp_hi bit_hi)
qed

lemma bit_irr_regs: "0 \<le> irq \<Longrightarrow> irq < 8 \<Longrightarrow> 
  bit (irr (pic_set_irq1_regs irq level u)) (nat irq) =
   (if bit (elcr u) (nat irq) then level \<noteq> 0 else (bit (irr u) (nat irq) \<or> (level \<noteq> 0 \<and> \<not> bit (last_irr u) (nat irq))))"
  by (auto simp: regs_word bit_simps)
lemma bit_last_irr_regs: "0 \<le> irq \<Longrightarrow> irq < 8 \<Longrightarrow> 
  bit (last_irr (pic_set_irq1_regs irq level u)) (nat irq) = (level \<noteq> 0)"
  by (auto simp: regs_word bit_simps)

lemma pic_set_irq1_total:
  "\<exists>s'. pic_set_irq1 i irq level s = Some s' \<and> pics s' i = pic_set_irq1_regs irq level (pics s i)"
  by (cases i) (simp_all add: pic_set_irq1_Master pic_set_irq1_Slave pics_def)

text \<open>
  C2. Line input on line 0..7 of a unit. Level-triggered line (elcr bit set): the irr bit
  and the last_irr bit both become the level (set for a non-zero level, clear for 0).
  Edge-triggered line: a high level sets the irr bit when the last_irr bit was 0, leaves irr
  alone when it was 1, and always sets last_irr; a low level clears the last_irr bit and
  leaves irr as it was. The operation returns.
\<close>

theorem pic_set_irq1_line:
  assumes "0 \<le> irq" and "irq < 8"
  shows "\<exists>s'. pic_set_irq1 i irq level s = Some s' \<and>
     (bit (elcr (pics s i)) (nat irq) \<longrightarrow>
        bit (irr (pics s' i)) (nat irq) = (level \<noteq> 0) \<and>
        bit (last_irr (pics s' i)) (nat irq) = (level \<noteq> 0)) \<and>
     (\<not> bit (elcr (pics s i)) (nat irq) \<and> level \<noteq> 0 \<longrightarrow>
        (\<not> bit (last_irr (pics s i)) (nat irq) \<longrightarrow> bit (irr (pics s' i)) (nat irq)) \<and>
        (bit (last_irr (pics s i)) (nat irq) \<longrightarrow> irr (pics s' i) = irr (pics s i)) \<and>
        bit (last_irr (pics s' i)) (nat irq)) \<and>
     (\<not> bit (elcr (pics s i)) (nat irq) \<and> level = 0 \<longrightarrow>
        \<not> bit (last_irr (pics s' i)) (nat irq) \<and> irr (pics s' i) = irr (pics s i))"
proof -
  from pic_set_irq1_total obtain s' where
    s': "pic_set_irq1 i irq level s = Some s'"
        "pics s' i = pic_set_irq1_regs irq level (pics s i)"
    by blast
  have n: "nat irq < 8" using assms by simp
  show ?thesis
    using n by (intro exI [of _ s']) (simp add: s' regs_word bit_or_exp bit_andnot_exp)
qed

theorem pic_set_irq1_line_witness:
  "(0::int) \<le> 3 \<and> (3::int) < 8 \<and>
   \<not> bit (elcr (pics (i8259_init 0) Master)) (nat 3) \<and>
   \<not> bit (last_irr (pics (i8259_init 0) Master)) (nat 3) \<and>
   (\<exists>s'. pic_set_irq1 Master 3 1 (i8259_init 0) = Some s' \<and>
         bit (irr (pics s' Master)) (nat 3) \<and> bit (last_irr (pics s' Master)) (nat 3))"
  using pic_set_irq1_line [of 3 Master 1 "i8259_init 0"]
  by (auto simp: i8259_init_def zero_pic_def pics_def)

text \<open>
  C10. Line input is idempotent: the state after one call of \<^verbatim>\<open>pic_set_irq1\<close> on a
  line 0..7 is a fixed point of the same call, for the whole pair (so for the unit).
\<close>

theorem pic_set_irq1_idempotent:
  assumes "0 \<le> irq" and "irq < 8"
  shows "\<exists>s1. pic_set_irq1 i irq level s = Some s1 \<and> pic_set_irq1 i irq level s1 = Some s1"
  by (cases i) (simp_all add: pic_set_irq1_Master pic_set_irq1_Slave regs_idem)

theorem pic_set_irq1_idempotent_witness:
  "(0::int) \<le> 5 \<and> (5::int) < 8 \<and>
   (\<exists>s1. pic_set_irq1 Slave 5 1 (i8259_init 0) = Some s1 \<and>
         pic_set_irq1 Slave 5 1 s1 = Some s1)"
  using pic_set_irq1_idempotent [of 5 Slave 1 "i8259_init 0"] by simp

lemma pics_simps [simp]: "pics s Master = pics0 s" "pics s Slave = pics1 s"
  by (simp_all add: pics_def)

lemma regs_frame:
  "imr (pic_set_irq1_regs irq level u) = imr u"
  "isr (pic_set_irq1_regs irq level u) = isr u"
  "priority_add (pic_set_irq1_regs irq level u) = priority_add u"
  "irq_base (pic_set_irq1_regs irq level u) = irq_base u"
  "read_reg_select (pic_set_irq1_regs irq level u) = read_reg_select u"
  "poll (pic_set_irq1_regs irq level u) = poll u"
  "special_mask (pic_set_irq1_regs irq level u) = special_mask u"
  "init_state (pic_set_irq1_regs irq level u) = init_state u"
  "auto_eoi (pic_set_irq1_regs irq level u) = auto_eoi u"
  "rotate_on_auto_eoi (pic_set_irq1_regs irq level u) = rotate_on_auto_eoi u"
  "special_fully_nested_mode (pic_set_irq1_regs irq level u) = special_fully_nested_mode u"
  "init4 (pic_set_irq1_regs irq level u) = init4 u"
  "single_mode (pic_set_irq1_regs irq level u) = single_mode u"
  "elcr (pic_set_irq1_regs irq level u) = elcr u"
  "elcr_mask (pic_set_irq1_regs irq level u) = elcr_mask u"
  by (simp_all add: regs_word)

lemma pic_update_irq_total:
  "\<exists>s'. pic_update_irq i s = Some s' \<and> pics s' i = pics s i \<and> pics1 s' = pics1 s \<and>
        (\<exists>lvl. pics0 s' = pics0 s \<or> pics0 s' = pic_set_irq1_regs 2 lvl (pics0 s))"
  by (cases i) (auto simp: pic_update_irq_Master pic_update_irq_Slave pics_def)

lemma pic_intack_Master:
  "pic_intack Master irq s =
     Some (s\<lparr>pics0 := pic_intack_regs irq (pics0 s),
             parent_irq := out_level Master (pic_intack_regs irq (pics0 s))\<rparr>)"
  by (simp add: pic_intack_def pic_update_irq_Master pics_update_def)

lemma pic_intack_Slave:
  "pic_intack Slave irq s =
     Some (s\<lparr>pics1 := pic_intack_regs irq (pics1 s),
             pics0 := pic_set_irq1_regs 2
                 (out_level Slave (pic_intack_regs irq (pics1 s))) (pics0 s),
             parent_irq := out_level Master (pic_set_irq1_regs 2
                 (out_level Slave (pic_intack_regs irq (pics1 s))) (pics0 s))\<rparr>)"
  by (simp add: pic_intack_def pic_update_irq_Slave pics_update_def)

lemma intack_regs_irq_base: "irq_base (pic_intack_regs irq u) = irq_base u"
  by (simp add: pic_intack_regs_def Let_def)

text \<open>
  C3. Acknowledge. With no line pending on the master the vector is the master's base
  plus 7 and the state is untouched (no intack). With master line 2 pending and nothing
  pending on the slave the vector is the slave's base plus 7; with slave line irq2 pending,
  intack is applied to the slave with irq2 and the vector is the slave's base plus irq2.
  Any other master line irq gives the master's base plus irq. Whenever the master has a
  line pending, intack is applied to the master with that line (after the slave's).
\<close>

theorem pic_read_irq_cases:
  "\<exists>irq. pic_get_irq Master (pics s Master) = Some irq \<and>
     (irq < 0 \<longrightarrow> pic_read_irq s = Some (uint (irq_base (pics s Master)) + 7, s)) \<and>
     (0 \<le> irq \<and> irq \<noteq> 2 \<longrightarrow>
        (\<exists>s'. pic_intack Master irq s = Some s' \<and>
              pic_read_irq s = Some (uint (irq_base (pics s Master)) + irq, s'))) \<and>
     (irq = 2 \<longrightarrow>
        (\<exists>irq2. pic_get_irq Slave (pics s Slave) = Some irq2 \<and>
           (irq2 < 0 \<longrightarrow>
              (\<exists>s'. pic_intack Master 2 s = Some s' \<and>
                    pic_read_irq s = Some (uint (irq_base (pics s Slave)) + 7, s'))) \<and>
           (0 \<le> irq2 \<longrightarrow>
              (\<exists>s1 s'. pic_intack Slave irq2 s = Some s1 \<and>
                    pic_intack Master 2 s1 = Some s' \<and>
                    pic_read_irq s = Some (uint (irq_base (pics s Slave)) + irq2, s')))))"
proof -
  obtain irq where irq: "pic_get_irq Master (pics0 s) = Some irq"
    using pic_get_irq_total by blast
  obtain irq2 where irq2: "pic_get_irq Slave (pics1 s) = Some irq2"
    using pic_get_irq_total by blast
  show ?thesis
    by (simp add: pic_read_irq_def irq irq2 pic_intack_Master pic_intack_Slave
        intack_regs_irq_base)
qed

lemma ex_cascade_pending:
  "pic_get_irq Master (pics0 ex_cascade) = Some 2" "pic_get_irq Slave (pics1 ex_cascade) = Some 2"
  by code_simp+

theorem pic_read_irq_cases_witness:
  "pic_get_irq Master (pics ex_cascade Master) = Some 2 \<and>
   pic_get_irq Slave (pics ex_cascade Slave) = Some 2 \<and>
   (\<exists>s1 s'. pic_intack Slave 2 ex_cascade = Some s1 \<and> pic_intack Master 2 s1 = Some s' \<and>
      pic_read_irq ex_cascade = Some (uint (irq_base (pics ex_cascade Slave)) + 2, s'))"
  using pic_read_irq_cases [of ex_cascade] ex_cascade_pending by simp

subsection \<open>What a pending line tells about the registers\<close>

lemma bit_request_mask: "bit (request_mask s) n \<longleftrightarrow> bit (irr s) n \<and> \<not> bit (imr s) n"
  using bit_u8_lt [of "irr s" n] by (auto simp: request_mask_def bit_simps)

lemma bit_4_int: "bit (4::int) n \<longleftrightarrow> n = 2"
  using bit_exp_iff [where ?'a = int, of 2 n] by auto

lemma bit_service_mask:
  "bit (service_mask i s) n \<longleftrightarrow>
     bit (isr s) n \<and> (special_mask s \<noteq> 0 \<longrightarrow> \<not> bit (imr s) n) \<and>
     (special_fully_nested_mode s \<noteq> 0 \<and> i = Master \<longrightarrow> n \<noteq> 2)"
  using bit_u8_lt [of "isr s" n] by (auto simp: service_mask_def Let_def bit_simps bit_4_int)

lemma pic_get_irq_pending:
  assumes r: "pic_get_irq i s = Some r" and r0: "0 \<le> r"
  shows "r < 8 \<and> bit (irr s) (nat r) \<and> \<not> bit (imr s) (nat r) \<and>
         (bit (isr s) (nat r) \<longrightarrow> special_fully_nested_mode s \<noteq> 0 \<and> i = Master \<and> r = 2)"
proof -
  from get_priority_range [of "request_mask s" s] request_mask_range [of s]
  obtain p where p: "get_priority s (request_mask s) = Some p" "0 \<le> p" "p \<le> 8"
    "p < 8 \<longrightarrow> bit (request_mask s) (prio_line s p)" by blast
  from get_priority_range [of "service_mask i s" s] service_mask_range [of i s]
  obtain c where c: "get_priority s (service_mask i s) = Some c"
    "\<forall>q. 0 \<le> q \<and> q < c \<and> q < 8 \<longrightarrow> \<not> bit (service_mask i s) (prio_line s q)" by blast
  from r r0 p(1) c(1) have sel: "p \<noteq> 8" "p < c" "r = (p + uint (priority_add s)) AND 7"
    by (auto simp: pic_get_irq_unfold split: if_splits)
  from sel(3) have line: "nat r = prio_line s p" by (simp add: prio_line_def)
  from sel(1) p(3) have p8: "p < 8" by simp
  from sel(3) have r8: "r < 8" by (simp add: and7)
  from p(4) p8 have req: "bit (request_mask s) (nat r)" by (simp add: line)
  from c(2) p(2) sel(2) p8 have svc: "\<not> bit (service_mask i s) (nat r)" by (simp add: line)
  from req have b: "bit (irr s) (nat r)" "\<not> bit (imr s) (nat r)"
    by (simp_all add: bit_request_mask)
  from svc b(2) have "bit (isr s) (nat r) \<longrightarrow>
      special_fully_nested_mode s \<noteq> 0 \<and> i = Master \<and> nat r = 2"
    by (auto simp: bit_service_mask)
  with r0 r8 b show ?thesis by auto
qed

lemma intack_regs_isr:
  "auto_eoi u = 0 \<Longrightarrow> isr (pic_intack_regs irq u) = isr u OR 2 ^ nat irq"
  by (simp add: pic_intack_regs_def Let_def set_bit_word)

lemma new_bit: "\<not> bit (x::u8) n \<Longrightarrow> (x OR 2 ^ n) AND NOT x = 2 ^ n"
  by (rule bit_eqI) (auto simp: bit_simps)

lemma popcount8_exp: "n < 8 \<Longrightarrow> popcount8 (2 ^ n) = 1"
proof -
  assume "n < 8"
  then consider "n = 0" | "n = 1" | "n = 2" | "n = 3" | "n = 4" | "n = 5" | "n = 6" | "n = 7"
    by linarith
  then show ?thesis
    by cases (simp_all add: popcount8_def bit_simps upt_rec)
qed

lemma popcount8_0: "popcount8 0 = 0"
  by (simp add: popcount8_def)


lemma or_andnot_self: "((x::u8) OR m) AND NOT x = m AND NOT x"
  by (rule bit_eqI) (auto simp: bit_simps)

lemma exp_andnot: "\<not> bit (x::u8) n \<Longrightarrow> 2 ^ n AND NOT x = 2 ^ n"
  by (rule bit_eqI) (auto simp: bit_simps)

lemma exp_andnot_set: "bit (x::u8) n \<Longrightarrow> 2 ^ n AND NOT x = 0"
  by (rule bit_eqI) (auto simp: bit_simps)

lemma four_andnot: "(4::u8) AND NOT x = (if bit x 2 then 0 else 4)"
  using exp_andnot [of x 2] exp_andnot_set [of x 2] by simp

lemma read_irq_spurious:
  "pic_get_irq Master (pics0 s) = Some irq \<Longrightarrow> irq < 0 \<Longrightarrow>
   pic_read_irq s = Some (uint (irq_base (pics0 s)) + 7, s)"
  by (simp add: pic_read_irq_def)

lemma read_irq_plain:
  "pic_get_irq Master (pics0 s) = Some irq \<Longrightarrow> 0 \<le> irq \<Longrightarrow> irq \<noteq> 2 \<Longrightarrow>
   pic_read_irq s = Some (uint (irq_base (pics0 s)) + irq,
      s\<lparr>pics0 := pic_intack_regs irq (pics0 s),
        parent_irq := out_level Master (pic_intack_regs irq (pics0 s))\<rparr>)"
  by (simp add: pic_read_irq_def pic_intack_Master)

lemma read_irq_cascade_none:
  "pic_get_irq Master (pics0 s) = Some 2 \<Longrightarrow> pic_get_irq Slave (pics1 s) = Some irq2 \<Longrightarrow>
   irq2 < 0 \<Longrightarrow>
   pic_read_irq s = Some (uint (irq_base (pics1 s)) + 7,
      s\<lparr>pics0 := pic_intack_regs 2 (pics0 s),
        parent_irq := out_level Master (pic_intack_regs 2 (pics0 s))\<rparr>)"
  by (simp add: pic_read_irq_def pic_intack_Master)

lemma read_irq_cascade:
  "pic_get_irq Master (pics0 s) = Some 2 \<Longrightarrow> pic_get_irq Slave (pics1 s) = Some irq2 \<Longrightarrow>
   0 \<le> irq2 \<Longrightarrow>
   pic_read_irq s = Some (uint (irq_base (pics1 s)) + irq2,
      s\<lparr>pics1 := pic_intack_regs irq2 (pics1 s),
        pics0 := pic_intack_regs 2 (pic_set_irq1_regs 2
                   (out_level Slave (pic_intack_regs irq2 (pics1 s))) (pics0 s)),
        parent_irq := out_level Master (pic_intack_regs 2 (pic_set_irq1_regs 2
                   (out_level Slave (pic_intack_regs irq2 (pics1 s))) (pics0 s)))\<rparr>)"
  by (simp add: pic_read_irq_def pic_intack_Master pic_intack_Slave intack_regs_irq_base)

text \<open>
  C5, as the code has it. With auto_eoi clear on the units involved: an acknowledge of a
  master line other than 2 sets exactly one new isr bit, that line's on the master. An
  acknowledge through the cascade (master line 2) sets the master's isr bit 2 (new unless
  it was in service already) and, when the slave has line irq2 pending, the slave's isr
  bit irq2 as well, which is new; with nothing pending on the slave its isr is unchanged.
  A spurious acknowledge (nothing pending on the master) changes nothing.
\<close>

theorem pic_read_irq_new_isr:
  "\<exists>irq. pic_get_irq Master (pics s Master) = Some irq \<and>
     (irq < 0 \<longrightarrow> (\<exists>v. pic_read_irq s = Some (v, s))) \<and>
     (0 \<le> irq \<and> irq \<noteq> 2 \<and> auto_eoi (pics s Master) = 0 \<longrightarrow>
        (\<exists>v s'. pic_read_irq s = Some (v, s') \<and>
           new_isr Master s s' = 2 ^ nat irq \<and> new_isr Slave s s' = 0 \<and>
           new_isr_count s s' = 1)) \<and>
     (irq = 2 \<and> auto_eoi (pics s Master) = 0 \<longrightarrow>
        (\<exists>irq2. pic_get_irq Slave (pics s Slave) = Some irq2 \<and>
           (irq2 < 0 \<longrightarrow>
              (\<exists>v s'. pic_read_irq s = Some (v, s') \<and>
                 isr (pics s' Master) = isr (pics s Master) OR 4 \<and>
                 new_isr Master s s' = (if bit (isr (pics s Master)) 2 then 0 else 4) \<and>
                 new_isr Slave s s' = 0)) \<and>
           (0 \<le> irq2 \<and> auto_eoi (pics s Slave) = 0 \<longrightarrow>
              (\<exists>v s'. pic_read_irq s = Some (v, s') \<and>
                 isr (pics s' Master) = isr (pics s Master) OR 4 \<and>
                 new_isr Master s s' = (if bit (isr (pics s Master)) 2 then 0 else 4) \<and>
                 new_isr Slave s s' = 2 ^ nat irq2))))"
proof -
  obtain irq where irq: "pic_get_irq Master (pics0 s) = Some irq"
    using pic_get_irq_total by blast
  obtain irq2 where irq2: "pic_get_irq Slave (pics1 s) = Some irq2"
    using pic_get_irq_total by blast
  have plain: "\<exists>v s'. pic_read_irq s = Some (v, s') \<and>
           new_isr Master s s' = 2 ^ nat irq \<and> new_isr Slave s s' = 0 \<and>
           new_isr_count s s' = 1"
    if h: "0 \<le> irq" "irq \<noteq> 2" "auto_eoi (pics0 s) = 0"
  proof -
    from pic_get_irq_pending [OF irq h(1)] h(2)
    have nb: "\<not> bit (isr (pics0 s)) (nat irq)" and lt: "nat irq < 8" by auto
    show ?thesis
      using h nb lt
      by (simp add: read_irq_plain [OF irq] new_isr_def new_isr_count_def intack_regs_isr
          or_andnot_self exp_andnot popcount8_exp popcount8_0)
  qed
  have none: "\<exists>v s'. pic_read_irq s = Some (v, s') \<and>
                 isr (pics s' Master) = isr (pics s Master) OR 4 \<and>
                 new_isr Master s s' = (if bit (isr (pics s Master)) 2 then 0 else 4) \<and>
                 new_isr Slave s s' = 0"
    if h: "irq = 2" "auto_eoi (pics0 s) = 0" "irq2 < 0"
    using h irq irq2
    by (simp add: read_irq_cascade_none new_isr_def intack_regs_isr or_andnot_self four_andnot)
  have casc: "\<exists>v s'. pic_read_irq s = Some (v, s') \<and>
                 isr (pics s' Master) = isr (pics s Master) OR 4 \<and>
                 new_isr Master s s' = (if bit (isr (pics s Master)) 2 then 0 else 4) \<and>
                 new_isr Slave s s' = 2 ^ nat irq2"
    if h: "irq = 2" "auto_eoi (pics0 s) = 0" "0 \<le> irq2" "auto_eoi (pics1 s) = 0"
  proof -
    from pic_get_irq_pending [OF irq2 h(3)]
    have nb: "\<not> bit (isr (pics1 s)) (nat irq2)" by auto
    show ?thesis
      using h nb
      by (simp add: read_irq_cascade [OF irq [unfolded h(1)] irq2 h(3)] new_isr_def
          intack_regs_isr regs_frame or_andnot_self four_andnot exp_andnot)
  qed
  show ?thesis
    using irq irq2 plain none casc by (auto simp: read_irq_spurious)
qed


lemma ex_plain_pending: "pic_get_irq Master (pics0 ex_plain) = Some 3"
  by code_simp

lemma ex_auto_eoi:
  "auto_eoi (pics0 ex_plain) = 0" "auto_eoi (pics0 ex_cascade) = 0"
  "auto_eoi (pics1 ex_cascade) = 0"
  by (simp_all add: ex_plain_def ex_cascade_def zero_pic_def)

theorem pic_read_irq_new_isr_witness:
  "(pic_get_irq Master (pics ex_plain Master) = Some 3 \<and> auto_eoi (pics ex_plain Master) = 0 \<and>
    (\<exists>v s'. pic_read_irq ex_plain = Some (v, s') \<and> new_isr Master ex_plain s' = 2 ^ nat 3 \<and>
       new_isr Slave ex_plain s' = 0 \<and> new_isr_count ex_plain s' = 1)) \<and>
   (pic_get_irq Master (pics ex_cascade Master) = Some 2 \<and>
    pic_get_irq Slave (pics ex_cascade Slave) = Some 2 \<and>
    auto_eoi (pics ex_cascade Master) = 0 \<and> auto_eoi (pics ex_cascade Slave) = 0 \<and>
    (\<exists>v s'. pic_read_irq ex_cascade = Some (v, s') \<and>
       isr (pics s' Master) = isr (pics ex_cascade Master) OR 4 \<and>
       new_isr Slave ex_cascade s' = 2 ^ nat 2))"
  using pic_read_irq_new_isr [of ex_plain] pic_read_irq_new_isr [of ex_cascade]
    ex_plain_pending ex_cascade_pending ex_auto_eoi
  by auto

lemma ex_cascade_read: "pic_read_irq ex_cascade = Some (0x2A, ex_cascade_acked)"
  by code_simp

text \<open>
  C5 as stated fails on the cascade: with auto_eoi clear on both units, acknowledging
  line 10 sets two new isr bits, bit 2 of the slave and bit 2 of the master.
\<close>

theorem pic_read_irq_one_new_bit_counterexample:
  "auto_eoi (pics ex_cascade Master) = 0 \<and> auto_eoi (pics ex_cascade Slave) = 0 \<and>
   pic_read_irq ex_cascade = Some (0x2A, ex_cascade_acked) \<and>
   new_isr Master ex_cascade ex_cascade_acked = 4 \<and>
   new_isr Slave ex_cascade ex_cascade_acked = 4 \<and>
   new_isr_count ex_cascade ex_cascade_acked = 2 \<and>
   new_isr_count ex_cascade ex_cascade_acked \<noteq> 1"
  by code_simp

subsection \<open>Reset\<close>

lemma pic_get_irq_reset: "pic_get_irq i (pic_init_reset_regs u) = Some (- 1)"
  by (simp add: pic_get_irq_def pic_init_reset_regs_def get_priority_def)

lemma out_level_reset: "out_level i (pic_init_reset_regs u) = 0"
  by (simp add: out_level_def pic_get_irq_reset)

lemma pic_init_reset_regs_eq:
  "pic_init_reset_regs u = zero_pic\<lparr>elcr := elcr u, elcr_mask := elcr_mask u\<rparr>"
  by (simp add: pic_init_reset_regs_def zero_pic_def)

lemma pic_init_reset_total:
  "\<exists>s'. pic_init_reset i s = Some s' \<and> pics s' i = pic_init_reset_regs (pics s i)"
  by (cases i) (simp_all add: pic_init_reset_def pic_update_irq_Master pic_update_irq_Slave
      pics_update_def)

text \<open>
  C7, as the code has it. The warm reset \<^verbatim>\<open>pic_init_reset\<close> returns and leaves the unit
  with every register zero except elcr and elcr_mask, which keep their values. The cold
  reset \<^verbatim>\<open>pic_reset\<close> returns and zeroes elcr as well; elcr_mask keeps its value.
\<close>

theorem pic_reset_registers:
  "\<exists>s1 s2. pic_init_reset i s = Some s1 \<and>
     pics s1 i = zero_pic\<lparr>elcr := elcr (pics s i), elcr_mask := elcr_mask (pics s i)\<rparr> \<and>
     pic_reset i s = Some s2 \<and>
     pics s2 i = zero_pic\<lparr>elcr_mask := elcr_mask (pics s i)\<rparr>"
proof -
  from pic_init_reset_total obtain s1 where
    s1: "pic_init_reset i s = Some s1" "pics s1 i = pic_init_reset_regs (pics s i)" by blast
  have "pics (pics_update i (\<lambda>u. u\<lparr>elcr := 0\<rparr>) s1) i =
        zero_pic\<lparr>elcr_mask := elcr_mask (pics s i)\<rparr>"
    using s1(2) by (cases i) (simp_all add: pics_update_def pic_init_reset_regs_eq zero_pic_def)
  with s1 show ?thesis
    by (simp add: pic_reset_def pic_init_reset_regs_eq)
qed

text \<open>
  C7 as stated fails on its last part: the cold reset of the master of a fresh pair
  leaves elcr_mask at 0xf8.
\<close>

theorem pic_reset_elcr_mask_counterexample:
  "pic_reset Master (i8259_init 0) = Some (i8259_init 0) \<and>
   elcr_mask (pics (i8259_init 0) Master) = 0xf8 \<and>
   elcr_mask (pics (i8259_init 0) Master) \<noteq> 0"
  by code_simp

subsection \<open>Port writes: ICW1\<close>

text \<open>
  C8. A write to offset 0 with bit 4 set is ICW1: with bit 3 set it ends in the
  \<^verbatim>\<open>hw_error\<close> abort, with bit 3 clear it returns a state and no error.
\<close>

theorem pic_ioport_write_icw1:
  assumes "val AND 0x10 \<noteq> 0"
  shows "(val AND 0x08 \<noteq> 0 \<longrightarrow>
            pic_ioport_write i 0 val s =
              Some (Inl (HwError ''level sensitive irq not supported''))) \<and>
         (val AND 0x08 = 0 \<longrightarrow> (\<exists>s'. pic_ioport_write i 0 val s = Some (Inr s')))"
proof -
  from pic_init_reset_total obtain s1 where "pic_init_reset i s = Some s1" by blast
  with assms show ?thesis by (simp add: pic_ioport_write_def)
qed

theorem pic_ioport_write_icw1_witness:
  "(0x19 :: u32) AND 0x10 \<noteq> 0 \<and> (0x19 :: u32) AND 0x08 \<noteq> 0 \<and>
   pic_ioport_write Master 0 0x19 (i8259_init 0) =
     Some (Inl (HwError ''level sensitive irq not supported'')) \<and>
   (0x11 :: u32) AND 0x10 \<noteq> 0 \<and> (0x11 :: u32) AND 0x08 = 0 \<and>
   (\<exists>s'. pic_ioport_write Master 0 0x11 (i8259_init 0) = Some (Inr s'))"
  using pic_ioport_write_icw1 [of "0x19" Master "i8259_init 0"]
    pic_ioport_write_icw1 [of "0x11" Master "i8259_init 0"]
  by simp

subsection \<open>Port reads\<close>

text \<open>
  C6, as the code has it. With the poll flag clear, a read from offset 1 returns imr and
  leaves the pair as it was. With the poll flag set, the read is the polled acknowledge,
  whatever the offset: offset 1 gives what offset 0 gives.
\<close>

theorem pic_ioport_read_imr:
  "(poll (pics s i) = 0 \<longrightarrow> pic_ioport_read i 1 s = Some (uint (imr (pics s i)), s)) \<and>
   (poll (pics s i) \<noteq> 0 \<longrightarrow> pic_ioport_read i 1 s = pic_ioport_read i 0 s)"
  by (simp add: pic_ioport_read_def)

theorem pic_ioport_read_imr_witness:
  "poll (pics (i8259_init 0) Master) = 0 \<and>
   pic_ioport_read Master 1 (i8259_init 0) =
     Some (uint (imr (pics (i8259_init 0) Master)), i8259_init 0) \<and>
   poll (pics ex_poll_masked Master) \<noteq> 0 \<and>
   pic_ioport_read Master 1 ex_poll_masked = pic_ioport_read Master 0 ex_poll_masked"
  using pic_ioport_read_imr [of "i8259_init 0" Master] pic_ioport_read_imr [of ex_poll_masked Master]
  by (simp add: i8259_init_def ex_poll_masked_def zero_pic_def)

text \<open>
  C6 as stated fails when the poll flag is set: with imr = 0xff the read from offset 1
  returns 7 (polled acknowledge, nothing pending), not 255.
\<close>

theorem pic_ioport_read_imr_counterexample:
  "pic_ioport_read Master 1 ex_poll_masked = Some (7, ex_poll_masked_read) \<and>
   uint (imr (pics ex_poll_masked Master)) = 255 \<and>
   (7::int) \<noteq> uint (imr (pics ex_poll_masked Master))"
  by code_simp

subsection \<open>The pending computation reads six registers only\<close>

lemma prio_line_cong: "priority_add s = priority_add t \<Longrightarrow> prio_line s p = prio_line t p"
  by (simp add: prio_line_def)

lemma get_priority_cong:
  assumes pa: "priority_add s = priority_add t" and m: "0 \<le> msk" "msk < 256"
  shows "get_priority s msk = get_priority t msk"
proof -
  from get_priority_range [OF m, of s] obtain p where
    p: "get_priority s msk = Some p" "0 \<le> p" "p \<le> 8" "(p = 8) = (msk = 0)"
       "p < 8 \<longrightarrow> bit msk (prio_line s p)"
       "\<forall>q. 0 \<le> q \<and> q < p \<and> q < 8 \<longrightarrow> \<not> bit msk (prio_line s q)" by blast
  from get_priority_range [OF m, of t] obtain q where
    q: "get_priority t msk = Some q" "0 \<le> q" "q \<le> 8" "(q = 8) = (msk = 0)"
       "q < 8 \<longrightarrow> bit msk (prio_line t q)"
       "\<forall>p. 0 \<le> p \<and> p < q \<and> p < 8 \<longrightarrow> \<not> bit msk (prio_line t p)" by blast
  have l: "\<And>k. prio_line s k = prio_line t k" using pa by (rule prio_line_cong)
  have "p = q"
  proof (cases "msk = 0")
    case True
    with p(4) q(4) show ?thesis by simp
  next
    case False
    with p q have lt: "p < 8" "q < 8" by auto
    have "\<not> p < q" using q(6) p(2) p(5) lt by (auto simp: l)
    moreover have "\<not> q < p" using p(6) q(2) q(5) lt by (auto simp: l)
    ultimately show ?thesis by simp
  qed
  with p(1) q(1) show ?thesis by simp
qed

lemma pic_get_irq_cong:
  assumes "irr s = irr t" "imr s = imr t" "isr s = isr t" "priority_add s = priority_add t"
    "special_mask s = special_mask t" "special_fully_nested_mode s = special_fully_nested_mode t"
  shows "pic_get_irq i s = pic_get_irq i t"
proof -
  have r: "request_mask s = request_mask t" using assms by (simp add: request_mask_def)
  have v: "service_mask i s = service_mask i t"
    unfolding service_mask_def assms(2,3,5,6) by (rule refl)
  have 1: "get_priority s (request_mask s) = get_priority t (request_mask t)"
    unfolding r using assms(4) request_mask_range [of t] by (intro get_priority_cong) auto
  have 2: "get_priority s (service_mask i s) = get_priority t (service_mask i t)"
    unfolding v using assms(4) service_mask_range [of i t] by (intro get_priority_cong) auto
  show ?thesis
    unfolding pic_get_irq_unfold 1 2 assms(4) by (rule refl)
qed

lemma out_level_poll [simp]: "out_level i (u\<lparr>poll := v\<rparr>) = out_level i u"
  by (simp add: out_level_def pic_get_irq_cong [of "u\<lparr>poll := v\<rparr>" u])

lemma out_level_cases: "out_level i u = 0 \<or> out_level i u = 1"
  by (auto simp: out_level_def split: option.splits)

subsection \<open>Polled acknowledge\<close>

lemma bit_last_irr_regs2: "bit (last_irr (pic_set_irq1_regs 2 lvl u)) 2 = (lvl \<noteq> 0)"
  using bit_last_irr_regs [of 2 lvl u] by simp

lemma pic_update_irq_in_sync: "pic_update_irq i s = Some s1 \<Longrightarrow> wire_in_sync i s1"
  by (cases i)
     (auto simp: pic_update_irq_Master pic_update_irq_Slave wire_in_sync_def bit_last_irr_regs2)

lemma wire_in_sync_poll:
  "wire_in_sync i (pics_update j (\<lambda>u. u\<lparr>poll := 0\<rparr>) s) = wire_in_sync i s"
  by (cases i; cases j) (simp_all add: wire_in_sync_def pics_update_def)

lemma clear_bit2_word: "word_of_int (uint (x::u8) AND - 5) = x AND - 5"
  using clear_bit_word [of x 2] by simp

lemma pic_poll_read_none:
  "pic_get_irq i (pics s i) = Some r \<Longrightarrow> r < 0 \<Longrightarrow> pic_poll_read i s = Some (7, s)"
  by (simp add: pic_poll_read_def)

lemma pic_poll_read_update:
  "pic_get_irq i (pics s i) = Some r \<Longrightarrow> 0 \<le> r \<Longrightarrow> i = Slave \<or> r \<noteq> 2 \<Longrightarrow>
   pic_update_irq i (polled_ack_cleared i r s) = Some s1 \<Longrightarrow>
   pic_poll_read i s = Some (r, s1)"
  by (cases i)
     (auto simp: pic_poll_read_def polled_ack_cleared_def Let_def clear_bit_word clear_bit2_word)

lemma pic_poll_read_master2:
  "pic_get_irq Master (pics s Master) = Some 2 \<Longrightarrow>
   pic_poll_read Master s = Some (2, polled_ack_cleared Master 2 s)"
  by (simp add: pic_poll_read_def polled_ack_cleared_def Let_def clear_bit2_word)


lemma cleared_bits:
  "\<not> bit (irr (pics (polled_ack_cleared i r s) i)) (nat r)"
  "\<not> bit (isr (pics (polled_ack_cleared i r s) i)) (nat r)"
  "\<not> bit (isr (pics (polled_ack_cleared Slave r s) Master)) 2"
proof -
  have "\<not> bit ((x::u8) AND - 5) 2" for x
    using bit_andnot_exp [of x 2] by simp
  then show
    "\<not> bit (irr (pics (polled_ack_cleared i r s) i)) (nat r)"
    "\<not> bit (isr (pics (polled_ack_cleared i r s) i)) (nat r)"
    "\<not> bit (isr (pics (polled_ack_cleared Slave r s) Master)) 2"
    by (cases i; simp add: polled_ack_cleared_def pics_update_def bit_andnot_exp)+
qed

lemma pics_update_simps [simp]:
  "pics0 (pics_update Master f s) = f (pics0 s)"
  "pics0 (pics_update Slave f s) = pics0 s"
  "pics1 (pics_update Slave f s) = f (pics1 s)"
  "pics1 (pics_update Master f s) = pics1 s"
  "parent_irq (pics_update i f s) = parent_irq s"
  by (cases i; simp add: pics_update_def)+

lemma pics_poll_clear:
  "irr (pics (pics_update j (\<lambda>u. u\<lparr>poll := 0\<rparr>) s) i) = irr (pics s i)"
  "isr (pics (pics_update j (\<lambda>u. u\<lparr>poll := 0\<rparr>) s) i) = isr (pics s i)"
  "poll (pics (pics_update i (\<lambda>u. u\<lparr>poll := 0\<rparr>) s) i) = 0"
  by (cases i; cases j; simp add: pics_update_def)+

lemma pic_update_irq_keeps:
  "pic_update_irq i s = Some s1 \<Longrightarrow>
   pics s1 i = pics s i \<and> isr (pics s1 j) = isr (pics s j)"
  by (cases i; cases j)
     (auto simp: pic_update_irq_Master pic_update_irq_Slave regs_frame)

text \<open>
  C4, as the code has it. A read from offset 0 that finds the poll flag set returns, with
  the poll flag clear afterwards. With no line pending it returns 7 and changes nothing
  else. With line r pending it returns r; the irr and isr bits of line r are clear
  afterwards, and on the slave the master's isr bit 2 as well (its irr bit 2 is cleared too,
  before the output is looked at again). The unit's output is then re-evaluated, except on
  the master when r is 2: there the wire is left as it was.
\<close>

theorem pic_ioport_read_poll:
  assumes "poll (pics s i) \<noteq> 0"
  shows "\<exists>r ret s'. pic_get_irq i (pics s i) = Some r \<and>
     pic_ioport_read i 0 s = Some (ret, s') \<and> poll (pics s' i) = 0 \<and>
     (r < 0 \<longrightarrow> ret = 7 \<and> s' = pics_update i (\<lambda>u. u\<lparr>poll := 0\<rparr>) s) \<and>
     (0 \<le> r \<longrightarrow> ret = r \<and>
        \<not> bit (irr (pics s' i)) (nat r) \<and> \<not> bit (isr (pics s' i)) (nat r) \<and>
        (i = Slave \<longrightarrow> \<not> bit (isr (pics s' Master)) 2)) \<and>
     (0 \<le> r \<and> (i = Slave \<or> r \<noteq> 2) \<longrightarrow>
        (\<exists>s1. pic_update_irq i (polled_ack_cleared i r s) = Some s1 \<and>
              s' = pics_update i (\<lambda>u. u\<lparr>poll := 0\<rparr>) s1) \<and>
        wire_in_sync i s') \<and>
     (0 \<le> r \<and> i = Master \<and> r = 2 \<longrightarrow>
        s' = pics_update i (\<lambda>u. u\<lparr>poll := 0\<rparr>) (polled_ack_cleared i r s) \<and>
        parent_irq s' = parent_irq s)"
proof -
  let ?clr = "pics_update i (\<lambda>u. u\<lparr>poll := 0\<rparr>)"
  obtain r where r: "pic_get_irq i (pics s i) = Some r" using pic_get_irq_total by blast
  consider (none) "r < 0" | (upd) "0 \<le> r" "i = Slave \<or> r \<noteq> 2" | (m2) "i = Master" "r = 2"
    by (cases i; cases "r < 0"; cases "r = 2") auto
  then show ?thesis
  proof cases
    case none
    with assms r show ?thesis
      by (simp add: pic_ioport_read_def pic_poll_read_none [OF r] pics_poll_clear)
  next
    case upd
    from pic_update_irq_total obtain s1 where
      s1: "pic_update_irq i (polled_ack_cleared i r s) = Some s1" by blast
    note k = pic_update_irq_keeps [OF s1]
    have rd: "pic_ioport_read i 0 s = Some (r, ?clr s1)"
      using assms by (simp add: pic_ioport_read_def pic_poll_read_update [OF r upd s1])
    have sync: "wire_in_sync i (?clr s1)"
      using pic_update_irq_in_sync [OF s1] by (simp add: wire_in_sync_poll)
    have bits: "\<not> bit (irr (pics (?clr s1) i)) (nat r)" "\<not> bit (isr (pics (?clr s1) i)) (nat r)"
      "i = Slave \<longrightarrow> \<not> bit (isr (pics (?clr s1) Master)) 2"
      using k [of i] k [of Master] cleared_bits(1,2) [of i r s] cleared_bits(3) [of r s]
      by (cases i; simp)+
    show ?thesis
      using r rd sync bits s1 upd by (auto simp: pics_poll_clear)
  next
    case m2
    have rd: "pic_ioport_read i 0 s = Some (2, ?clr (polled_ack_cleared i 2 s))"
      using assms r m2 by (simp add: pic_ioport_read_def pic_poll_read_master2)
    have bits: "\<not> bit (irr (pics (?clr (polled_ack_cleared i 2 s)) i)) (nat 2)"
      "\<not> bit (isr (pics (?clr (polled_ack_cleared i 2 s)) i)) (nat 2)"
      by (simp_all only: pics_poll_clear cleared_bits not_False_eq_True)
    have par: "parent_irq (?clr (polled_ack_cleared i 2 s)) = parent_irq s"
      using m2 by (simp add: polled_ack_cleared_def pics_update_def)
    show ?thesis
      using r rd bits par m2 by (auto simp: pics_poll_clear)
  qed
qed


lemma ex_poll_pending:
  "pic_get_irq Master (pics0 ex_poll_cascade) = Some 2"
  "pic_get_irq Master (pics0 ex_poll_plain) = Some 3"
  by code_simp+

lemma ex_poll_flag:
  "poll (pics0 ex_poll_cascade) \<noteq> 0" "poll (pics0 ex_poll_plain) \<noteq> 0"
  by (simp_all add: ex_poll_cascade_def ex_poll_plain_def zero_pic_def)

theorem pic_ioport_read_poll_witness:
  "(poll (pics ex_poll_plain Master) \<noteq> 0 \<and>
    (\<exists>s'. pic_ioport_read Master 0 ex_poll_plain = Some (3, s') \<and> poll (pics s' Master) = 0 \<and>
       \<not> bit (irr (pics s' Master)) (nat 3) \<and> wire_in_sync Master s')) \<and>
   (poll (pics ex_poll_cascade Master) \<noteq> 0 \<and>
    (\<exists>s'. pic_ioport_read Master 0 ex_poll_cascade = Some (2, s') \<and> poll (pics s' Master) = 0 \<and>
       parent_irq s' = parent_irq ex_poll_cascade))"
  using pic_ioport_read_poll [of ex_poll_plain Master]
    pic_ioport_read_poll [of ex_poll_cascade Master] ex_poll_pending ex_poll_flag
  by auto

text \<open>
  C4 as stated fails on the master when the pending line is 2. Before the read the
  output wire is raised and line 2 is pending; the read returns 2 and clears irr bit 2,
  after which nothing is pending, yet the wire is still raised: it was not re-evaluated.
\<close>

theorem pic_ioport_read_poll_counterexample:
  "poll (pics ex_poll_cascade Master) \<noteq> 0 \<and>
   pic_get_irq Master (pics ex_poll_cascade Master) = Some 2 \<and>
   wire_in_sync Master ex_poll_cascade \<and>
   pic_ioport_read Master 0 ex_poll_cascade = Some (2, ex_poll_cascade_read) \<and>
   pic_get_irq Master (pics ex_poll_cascade_read Master) = Some (- 1) \<and>
   parent_irq ex_poll_cascade_read = 1 \<and>
   \<not> wire_in_sync Master ex_poll_cascade_read"
  by code_simp

subsection \<open>irq\_base is written by the warm reset and by ICW2 only\<close>

lemma aligned_pics_update:
  "(\<And>u. irq_base (f u) = irq_base u) \<Longrightarrow>
   irq_base_aligned (pics_update i f s) = irq_base_aligned s"
  by (cases i) (simp_all add: irq_base_aligned_def)

lemma aligned_update_irq:
  "pic_update_irq i s = Some s' \<Longrightarrow> irq_base_aligned s' = irq_base_aligned s"
  by (cases i)
     (auto simp: pic_update_irq_Master pic_update_irq_Slave irq_base_aligned_def regs_frame)

lemma aligned_update_after:
  "(\<And>u. irq_base (f u) = irq_base u) \<Longrightarrow> pic_update_irq i (pics_update i f s) = Some s' \<Longrightarrow>
   irq_base_aligned s' = irq_base_aligned s"
  using aligned_update_irq [of i "pics_update i f s" s'] aligned_pics_update [of f i s]
  by simp

lemma aligned_set_irq1:
  "pic_set_irq1 i irq level s = Some s' \<Longrightarrow> irq_base_aligned s' = irq_base_aligned s"
  unfolding pic_set_irq1.simps by (rule aligned_update_after) (rule regs_frame)

lemma aligned_i8259_set_irq:
  "i8259_set_irq irq level s = Some s' \<Longrightarrow> irq_base_aligned s' = irq_base_aligned s"
  by (auto simp: i8259_set_irq_def aligned_set_irq1 split: if_splits)

lemma aligned_intack:
  "pic_intack i irq s = Some s' \<Longrightarrow> irq_base_aligned s' = irq_base_aligned s"
  unfolding pic_intack_def by (rule aligned_update_after) (rule intack_regs_irq_base)

lemma aligned_read_irq:
  assumes "pic_read_irq s = Some (intno, s')"
  shows "irq_base_aligned s' = irq_base_aligned s"
proof -
  obtain irq where irq: "pic_get_irq Master (pics0 s) = Some irq"
    using pic_get_irq_total by blast
  obtain irq2 where irq2: "pic_get_irq Slave (pics1 s) = Some irq2"
    using pic_get_irq_total by blast
  consider "irq < 0" | "0 \<le> irq" "irq \<noteq> 2" | "irq = 2" "irq2 < 0" | "irq = 2" "0 \<le> irq2"
    by linarith
  then show ?thesis
  proof cases
    case 1
    with assms irq show ?thesis by (simp add: read_irq_spurious)
  next
    case 2
    with assms irq show ?thesis
      by (auto simp: read_irq_plain irq_base_aligned_def intack_regs_irq_base)
  next
    case 3
    with assms irq irq2 show ?thesis
      by (auto simp: read_irq_cascade_none irq_base_aligned_def intack_regs_irq_base)
  next
    case 4
    with assms irq irq2 show ?thesis
      by (auto simp: read_irq_cascade irq_base_aligned_def intack_regs_irq_base regs_frame)
  qed
qed

lemma aligned_cleared: "irq_base_aligned (polled_ack_cleared i r s) = irq_base_aligned s"
  by (cases i) (simp_all add: polled_ack_cleared_def irq_base_aligned_def)

lemma aligned_poll_read:
  assumes "pic_poll_read i s = Some (ret, s')"
  shows "irq_base_aligned s' = irq_base_aligned s"
proof -
  obtain r where r: "pic_get_irq i (pics s i) = Some r" using pic_get_irq_total by blast
  consider (none) "r < 0" | (upd) "0 \<le> r" "i = Slave \<or> r \<noteq> 2" | (m2) "i = Master" "r = 2"
    by (cases i; cases "r < 0"; cases "r = 2") auto
  then show ?thesis
  proof cases
    case none
    with assms r show ?thesis by (simp add: pic_poll_read_none [OF r])
  next
    case upd
    from pic_update_irq_total obtain s1 where
      s1: "pic_update_irq i (polled_ack_cleared i r s) = Some s1" by blast
    from assms have "s' = s1" by (simp add: pic_poll_read_update [OF r upd s1])
    with aligned_update_irq [OF s1] show ?thesis by (simp add: aligned_cleared)
  next
    case m2
    with assms r show ?thesis by (auto simp: pic_poll_read_master2 aligned_cleared)
  qed
qed

lemma aligned_ioport_read:
  assumes "pic_ioport_read i addr s = Some (ret, s')"
  shows "irq_base_aligned s' = irq_base_aligned s"
proof (cases "poll (pics s i) = 0")
  case True
  with assms show ?thesis by (auto simp: pic_ioport_read_def split: if_splits)
next
  case False
  with assms obtain s1 where s1: "pic_poll_read i s = Some (ret, s1)"
    and s': "s' = pics_update i (\<lambda>u. u\<lparr>poll := 0\<rparr>) s1"
    by (auto simp: pic_ioport_read_def split: Option.bind_splits)
  from aligned_poll_read [OF s1] show ?thesis
    unfolding s' by (simp add: aligned_pics_update)
qed

lemma aligned_intack_read:
  assumes "pic_intack_read s = Some (ret, s')"
  shows "irq_base_aligned s' = irq_base_aligned s"
proof -
  from assms obtain r1 s1 r2 s2 where
    1: "pic_poll_read Master s = Some (r1, s1)" and
    2: "(r1 = 2 \<and> pic_poll_read Slave s1 = Some (r2, s2)) \<or> (r1 \<noteq> 2 \<and> s2 = s1)" and
    3: "s' = pics_update Master (\<lambda>u. u\<lparr>read_reg_select := 1\<rparr>) s2"
    by (auto simp: pic_intack_read_def split: Option.bind_splits if_splits)
  from 2 have "irq_base_aligned s2 = irq_base_aligned s1"
    by (auto simp: aligned_poll_read)
  with aligned_poll_read [OF 1] show ?thesis
    unfolding 3 by (simp add: aligned_pics_update)
qed

lemma aligned_init_reset:
  assumes "pic_init_reset i s = Some s'"
  shows "irq_base (pics s' i) = 0 \<and> (\<forall>j. j \<noteq> i \<longrightarrow> irq_base (pics s' j) = irq_base (pics s j))"
proof -
  have "irq_base (pics s' j) = (if j = i then 0 else irq_base (pics s j))" for j
    using assms
    by (cases i; cases j)
       (auto simp: pic_init_reset_def pic_update_irq_Master pic_update_irq_Slave
          pic_init_reset_regs_def regs_frame)
  then show ?thesis by simp
qed

lemma aligned_reset:
  assumes "pic_reset i s = Some s'"
  shows "irq_base (pics s' i) = 0 \<and> (\<forall>j. j \<noteq> i \<longrightarrow> irq_base (pics s' j) = irq_base (pics s j))"
proof -
  from assms obtain s1 where s1: "pic_init_reset i s = Some s1"
    and s': "s' = pics_update i (\<lambda>u. u\<lparr>elcr := 0\<rparr>) s1"
    by (auto simp: pic_reset_def split: Option.bind_splits)
  have "irq_base (pics s' j) = irq_base (pics s1 j)" for j
    unfolding s' by (cases i; cases j) simp_all
  with aligned_init_reset [OF s1] show ?thesis by simp
qed

lemma aligned_reset_keeps:
  "pic_reset i s = Some s' \<Longrightarrow> irq_base_aligned s \<Longrightarrow> irq_base_aligned s'"
  using aligned_reset [of i s s']
  by (cases i) (auto simp: irq_base_aligned_def)

lemma aligned_init_reset_keeps:
  "pic_init_reset i s = Some s' \<Longrightarrow> irq_base_aligned s \<Longrightarrow> irq_base_aligned s'"
  using aligned_init_reset [of i s s']
  by (cases i) (auto simp: irq_base_aligned_def)

lemma aligned_machine_reset:
  "pic_reset Master s0 = Some s1 \<Longrightarrow> pic_reset Slave s1 = Some s2 \<Longrightarrow> irq_base_aligned s2"
  using aligned_reset [of Master s0 s1] aligned_reset [of Slave s1 s2]
  by (auto simp: irq_base_aligned_def)

lemma aligned_ocw2:
  assumes "ocw2 i val s = Some s'"
  shows "irq_base_aligned s' = irq_base_aligned s"
  using assms unfolding ocw2_def Let_def
  by (auto split: if_splits Option.bind_splits
      simp: aligned_pics_update aligned_update_after
      dest!: aligned_update_irq)

lemma icw2_low_bits: "(ucast ((val::u32) AND 0xf8) :: u8) AND 7 = 0"
proof -
  have "(ucast (val AND 0xf8) :: u8) AND 7 = (ucast val AND 0xf8) AND 7"
    by (simp add: unsigned_and_eq)
  also have "\<dots> = ucast val AND (0xf8 AND 7)"
    by (simp only: and.assoc)
  also have "\<dots> = 0" by simp
  finally show ?thesis .
qed

lemma aligned_icw_data:
  "irq_base (icw_data val u) AND 7 = 0 \<longleftrightarrow> (init_state u = 1 \<or> irq_base u AND 7 = 0)"
  by (auto simp: icw_data_def icw2_low_bits)


lemma ocw3_regs_irq_base: "irq_base (ocw3_regs val u) = irq_base u"
  by (simp add: ocw3_regs_def Let_def)

lemma aligned_icw_update:
  "irq_base_aligned s \<Longrightarrow> irq_base_aligned (pics_update i (icw_data val) s)"
  by (cases i) (simp_all add: irq_base_aligned_def aligned_icw_data)

lemma aligned_ioport_write:
  assumes w: "pic_ioport_write i addr val s = Some (Inr s')" and a: "irq_base_aligned s"
  shows "irq_base_aligned s'"
proof -
  consider (icw1) "addr = 0" "val AND 0x10 \<noteq> 0"
    | (ocw3) "addr = 0" "val AND 0x10 = 0" "val AND 0x08 \<noteq> 0"
    | (ocw2) "addr = 0" "val AND 0x10 = 0" "val AND 0x08 = 0"
    | (ocw1) "addr \<noteq> 0" "init_state (pics s i) = 0"
    | (icw) "addr \<noteq> 0" "init_state (pics s i) \<noteq> 0"
    by blast
  then show ?thesis
  proof cases
    case icw1
    with w obtain s1 where s1: "pic_init_reset i s = Some s1"
      and s': "s' = pics_update i (\<lambda>u. u\<lparr>init_state := 1, init4 := ucast (val AND 1),
                             single_mode := ucast (val AND 2)\<rparr>) s1"
      by (auto simp: pic_ioport_write_def split: Option.bind_splits if_splits)
    from aligned_init_reset_keeps [OF s1 a] show ?thesis
      unfolding s' by (simp add: aligned_pics_update)
  next
    case ocw3
    with w a show ?thesis
      by (auto simp: pic_ioport_write_def aligned_pics_update ocw3_regs_irq_base)
  next
    case ocw2
    with w a show ?thesis
      by (auto simp: pic_ioport_write_def aligned_ocw2)
  next
    case ocw1
    with w have "pic_update_irq i (pics_update i (\<lambda>u. u\<lparr>imr := ucast val\<rparr>) s) = Some s'"
      by (auto simp: pic_ioport_write_def)
    from aligned_update_after [OF _ this] a show ?thesis by simp
  next
    case icw
    with w a show ?thesis
      by (auto simp: pic_ioport_write_def aligned_icw_update)
  qed
qed

lemma aligned_elcr_write: "irq_base_aligned (elcr_ioport_write i v s) = irq_base_aligned s"
  by (simp add: elcr_ioport_write_def aligned_pics_update)

lemma aligned_init: "irq_base_aligned (i8259_init parent)"
  by (simp add: irq_base_aligned_def i8259_init_def zero_pic_def)

lemma reachable_aligned: "reachable s \<Longrightarrow> irq_base_aligned s"
proof (induction rule: reachable.induct)
  case (construct parent)
  show ?case by (rule aligned_init)
next
  case (machine_reset s0 s1 s2)
  then show ?case by (rule aligned_machine_reset)
next
  case (port_write s i addr val s')
  then show ?case by (auto intro: aligned_ioport_write)
next
  case (port_read s i addr ret s')
  then show ?case by (simp add: aligned_ioport_read)
next
  case (elcr_write s i val64)
  then show ?case by (simp add: aligned_elcr_write)
next
  case (line_input s irq level s')
  then show ?case by (simp add: aligned_i8259_set_irq)
next
  case (acknowledge s intno s')
  then show ?case by (simp add: aligned_read_irq)
next
  case (intack_read s ret s')
  then show ?case by (simp add: aligned_intack_read)
next
  case (reset s i s')
  then show ?case by (auto intro: aligned_reset_keeps)
qed

text \<open>
  C9. In every reachable state the low three bits of irq\_base are 0 on both units,
  whatever byte was written as ICW2.
\<close>

theorem irq_base_low_bits: "reachable s \<Longrightarrow> irq_base (pics s i) AND 7 = 0"
  using reachable_aligned [of s] by (cases i) (simp_all add: irq_base_aligned_def)

lemma ex_icw_writes:
  "pic_ioport_write Master 0 0x11 (i8259_init 0) = Some (Inr ex_icw1)"
  "pic_ioport_write Master 1 0xFF ex_icw1 = Some (Inr ex_icw2)"
  by code_simp+

lemma reachable_ex_icw2: "reachable ex_icw2"
  by (rule reachable.port_write [OF reachable.port_write [OF reachable.construct]])
     (rule ex_icw_writes)+

theorem irq_base_low_bits_witness:
  "reachable ex_icw2 \<and> irq_base (pics ex_icw2 Master) = 0xf8 \<and>
   irq_base (pics ex_icw2 Master) AND 7 = 0"
  using irq_base_low_bits [OF reachable_ex_icw2, of Master] reachable_ex_icw2
  by (simp add: ex_icw2_def zero_pic_def)

subsection \<open>Every entry point returns\<close>

lemma pic_read_irq_total: "\<exists>intno s'. pic_read_irq s = Some (intno, s')"
proof -
  obtain irq where irq: "pic_get_irq Master (pics0 s) = Some irq"
    using pic_get_irq_total by blast
  obtain irq2 where irq2: "pic_get_irq Slave (pics1 s) = Some irq2"
    using pic_get_irq_total by blast
  consider "irq < 0" | "0 \<le> irq" "irq \<noteq> 2" | "irq = 2" "irq2 < 0" | "irq = 2" "0 \<le> irq2"
    by linarith
  then show ?thesis
    using irq irq2
    by cases (simp_all add: read_irq_spurious read_irq_plain read_irq_cascade_none
        read_irq_cascade)
qed

lemma pic_poll_read_total: "\<exists>ret s'. pic_poll_read i s = Some (ret, s')"
proof -
  obtain r where r: "pic_get_irq i (pics s i) = Some r" using pic_get_irq_total by blast
  consider (none) "r < 0" | (upd) "0 \<le> r" "i = Slave \<or> r \<noteq> 2" | (m2) "i = Master" "r = 2"
    by (cases i; cases "r < 0"; cases "r = 2") auto
  then show ?thesis
  proof cases
    case none
    then show ?thesis by (simp add: pic_poll_read_none [OF r])
  next
    case upd
    from pic_update_irq_total obtain s1 where
      "pic_update_irq i (polled_ack_cleared i r s) = Some s1" by blast
    from pic_poll_read_update [OF r upd this] show ?thesis by simp
  next
    case m2
    with r show ?thesis by (simp add: pic_poll_read_master2)
  qed
qed

lemma pic_ioport_read_total: "\<exists>ret s'. pic_ioport_read i addr s = Some (ret, s')"
  using pic_poll_read_total [of i s] by (auto simp: pic_ioport_read_def)

lemma pic_intack_read_total: "\<exists>ret s'. pic_intack_read s = Some (ret, s')"
proof -
  from pic_poll_read_total obtain r1 s1 where 1: "pic_poll_read Master s = Some (r1, s1)"
    by blast
  from pic_poll_read_total obtain r2 s2 where 2: "pic_poll_read Slave s1 = Some (r2, s2)"
    by blast
  show ?thesis by (simp add: pic_intack_read_def 1 2)
qed

lemma pic_reset_total: "\<exists>s'. pic_reset i s = Some s'"
  using pic_init_reset_total [of i s] by (auto simp: pic_reset_def)

lemma i8259_set_irq_total:
  "0 \<le> irq \<Longrightarrow> irq < 16 \<Longrightarrow> \<exists>s'. i8259_set_irq irq level s = Some s'"
proof -
  assume "0 \<le> irq" "irq < 16"
  then have "drop_bit 3 irq = 0 \<or> drop_bit 3 irq = 1"
    by (simp add: drop_bit_eq_div) linarith
  then show ?thesis
    using pic_set_irq1_total [of Master "irq AND 7" level s]
      pic_set_irq1_total [of Slave "irq AND 7" level s]
    by (auto simp: i8259_set_irq_def)
qed

lemma ocw2_total: "\<exists>s'. ocw2 i val s = Some s'"
proof -
  have "0 \<le> uint (isr (pics s i))" "uint (isr (pics s i)) < 256"
    using uint_bounded [of "isr (pics s i)"] by simp_all
  from get_priority_range [OF this, of "pics s i"] obtain p where
    p: "get_priority (pics s i) (uint (isr (pics s i))) = Some p" by blast
  show ?thesis
    unfolding ocw2_def Let_def p
    using pic_update_irq_total by (auto simp del: pics_simps)
qed

lemma pic_ioport_write_total: "\<exists>res. pic_ioport_write i addr val s = Some res"
  using pic_init_reset_total [of i s] ocw2_total [of i val s]
    pic_update_irq_total [of i "pics_update i (\<lambda>u. u\<lparr>imr := ucast val\<rparr>) s"]
  by (auto simp: pic_ioport_write_def)

text \<open>A mask with no bit among the low eight keeps the loop of get_priority running.\<close>

subsection \<open>Where the loop of get\_priority does not return\<close>

lemma loop_result_bit:
  assumes a: "get_priority_loop s msk p = Some y"
  shows "bit msk (prio_line s y)"
proof (rule get_priority_loop.raw_induct
    [where P = "\<lambda>s' msk' p' y'. bit msk' (prio_line s' y')", OF _ a])
  fix f :: "PicState \<Rightarrow> int \<Rightarrow> int \<Rightarrow> int option" and s' msk' p' y'
  assume IH: "\<And>s msk p y. f s msk p = Some y \<Longrightarrow> bit msk (prio_line s y)"
    and st: "(if msk' AND push_bit (nat ((p' + uint (priority_add s')) AND 7)) 1 = 0
              then f s' msk' (p' + 1) else Some p') = Some y'"
  show "bit msk' (prio_line s' y')"
  proof (cases "bit msk' (prio_line s' p')")
    case True
    with st have "y' = p'"
      by (simp add: prio_line_def bit_iff_and_push_bit_not_eq_0)
    with True show ?thesis by simp
  next
    case False
    with st have "f s' msk' (p' + 1) = Some y'"
      by (simp add: prio_line_def bit_iff_and_push_bit_not_eq_0)
    then show ?thesis by (rule IH)
  qed
qed

lemma get_priority_no_return:
  assumes "msk \<noteq> 0" and "\<And>n. n < 8 \<Longrightarrow> \<not> bit msk n"
  shows "get_priority s msk = None"
proof (cases "get_priority s msk")
  case None
  then show ?thesis .
next
  case (Some y)
  with assms(1) have "get_priority_loop s msk 0 = Some y" by (simp add: get_priority_def)
  from loop_result_bit [OF this] assms(2) [OF prio_line_lt] show ?thesis by simp
qed

lemma get_priority_256: "get_priority s 256 = None"
proof (rule get_priority_no_return)
  show "(256::int) \<noteq> 0" by simp
  show "\<not> bit (256::int) n" if "n < 8" for n
    using that bit_exp_iff [where ?'a = int, of 8 n] by simp
qed

subsection \<open>The example states are reachable\<close>

lemma pic_step_reachable: "reachable s \<Longrightarrow> pic_step x s = Some s' \<Longrightarrow> reachable s'"
proof (cases x)
  case (Port_write i addr val)
  assume "reachable s" "pic_step x s = Some s'"
  with Port_write show ?thesis
    by (auto split: option.splits sum.splits intro: reachable.port_write)
next
  case (Port_read i addr)
  assume "reachable s" "pic_step x s = Some s'"
  with Port_read show ?thesis by (auto intro: reachable.port_read)
next
  case (Line_input irq level)
  assume "reachable s" "pic_step x s = Some s'"
  with Line_input show ?thesis by (auto intro: reachable.line_input)
next
  case Acknowledge
  assume "reachable s" "pic_step x s = Some s'"
  with Acknowledge show ?thesis by (auto intro: reachable.acknowledge)
qed

lemma pic_run_reachable: "reachable s \<Longrightarrow> pic_run xs s = Some s' \<Longrightarrow> reachable s'"
proof (induction xs arbitrary: s)
  case Nil
  then show ?case by simp
next
  case (Cons x xs)
  then show ?case
    by (auto split: option.splits dest: pic_step_reachable)
qed

lemma ex_runs:
  "pic_run (init_ops @ [Line_input 10 1]) (i8259_init 0) = Some ex_cascade"
  "pic_run (init_ops @ [Line_input 10 1, Acknowledge]) (i8259_init 0) = Some ex_cascade_acked"
  "pic_run (init_ops @ [Line_input 3 1]) (i8259_init 0) = Some ex_plain"
  "pic_run (init_ops @ [Line_input 10 1, Port_write Master 0 0x0C]) (i8259_init 0) =
     Some ex_poll_cascade"
  "pic_run (init_ops @ [Line_input 3 1, Port_write Master 0 0x0C]) (i8259_init 0) =
     Some ex_poll_plain"
  "pic_run [Port_write Master 1 0xFF, Port_write Master 0 0x0C] (i8259_init 0) =
     Some ex_poll_masked"
  "pic_run [Port_write Master 0 0x11, Port_write Master 1 0xFF] (i8259_init 0) = Some ex_icw2"
  by code_simp+

lemma ex_reachable:
  "reachable ex_cascade" "reachable ex_cascade_acked" "reachable ex_plain"
  "reachable ex_poll_cascade" "reachable ex_poll_plain" "reachable ex_poll_masked"
  "reachable ex_icw2"
  by (rule pic_run_reachable [OF reachable.construct], rule ex_runs)+

end
